theory Spec2Isabelle
  imports Main "HOL-Library.Word" "HOL-Library.AList"
begin

unbundle bit_operations_syntax

section \<open>Bytes and the sector geometry\<close>

text \<open>
  A Python \<open>bytes\<close> value is a list of 8-bit words. \<open>SECTOR_BYTES\<close> and
  \<open>HEADER_BYTES\<close> are the two module constants of
  \<open>terralith_biome_remap_standalone.py\<close>.
\<close>

type_synonym byte = "8 word"
type_synonym bytes = "byte list"

definition SECTOR_BYTES :: nat where
  "SECTOR_BYTES = 4096"

definition HEADER_BYTES :: nat where
  "HEADER_BYTES = SECTOR_BYTES * 2"

text \<open>
  Every \<open>raise\<close> of the source, and every exception of a library call that the source
  lets escape or catches, is a value of \<open>error\<close>.
\<close>

datatype error =
    InvalidChunkBlob
  | ChunkLengthMismatch
  | UnknownCompression nat
  | DecompressFailed
  | NbtParseFailed
  | NbtWriteFailed
  | IndexError
  | OverflowError
  | StructError
  | TypeError
  | TruthValueError
  | IncompatibleItemType
  | ChunkTooLarge nat

text \<open>\<open>xs[i:j]\<close> for indices \<open>0 \<le> i\<close>, \<open>0 \<le> j\<close>: Python clips both at the end.\<close>

definition slice :: "'a list \<Rightarrow> nat \<Rightarrow> nat \<Rightarrow> 'a list" where
  "slice xs i j = drop i (take j xs)"

text \<open>
  \<open>xs[:k]\<close> for an integer \<open>k\<close> that may be negative: a negative \<open>k\<close> counts from the
  end of the list.
\<close>

definition slice_to :: "'a list \<Rightarrow> int \<Rightarrow> 'a list" where
  "slice_to xs k =
     (if 0 \<le> k then take (nat k) xs else take (length xs - nat (- k)) xs)"

text \<open>\<open>int.from_bytes(bs, "big")\<close>; the empty string gives 0.\<close>

definition from_bytes_big :: "bytes \<Rightarrow> nat" where
  "from_bytes_big bs = foldl (\<lambda>acc b. acc * 256 + unat b) 0 bs"

text \<open>
  \<open>n.to_bytes(k, "big")\<close> for \<open>n \<ge> 0\<close>, and \<open>struct.pack(">I", n)\<close> for \<open>k = 4\<close>: the
  \<open>k\<close> big-endian digits of \<open>n\<close>, or an error when \<open>n\<close> does not fit.
\<close>

fun be_digits :: "nat \<Rightarrow> nat \<Rightarrow> bytes" where
  "be_digits 0 n = []"
| "be_digits (Suc k) n = be_digits k (n div 256) @ [word_of_nat n]"

definition to_bytes_big :: "nat \<Rightarrow> nat \<Rightarrow> error \<Rightarrow> error + bytes" where
  "to_bytes_big n k e = (if n < 256 ^ k then Inr (be_digits k n) else Inl e)"

section \<open>NBT values\<close>

text \<open>
  The tags of nbtlib, one constructor each (\<open>IntTag\<close> is nbtlib's \<open>Int\<close>). \<open>Byte\<close>,
  \<open>Short\<close>, \<open>Int\<close> and \<open>Long\<close> are subclasses of \<open>int\<close>; \<open>Float\<close> and \<open>Double\<close> carry their IEEE bit pattern; \<open>String\<close> is
  a subclass of \<open>str\<close>; \<open>List\<close> is a subclass of \<open>list\<close> (the only
  \<open>MutableSequence\<close> among the tags); \<open>Compound\<close> is a subclass of \<open>dict\<close>, kept in
  insertion order as an association list read with \<open>map_of\<close>; the three array tags are
  numpy arrays.
\<close>

datatype nbt =
    Byte int
  | Short int
  | IntTag int
  | Long int
  | Float "32 word"
  | Double "64 word"
  | ByteArray "int list"
  | String string
  | List "nbt list"
  | Compound "(string \<times> nbt) list"
  | IntArray "int list"
  | LongArray "int list"

section \<open>Library calls\<close>

text \<open>
  What the program calls in gzip, zlib, nbtlib, numpy and the built-ins and what this
  development does not define itself: the two decompressors and the NBT parser and writer
  (\<open>None\<close> when the call raises), the two compressors, \<open>str(v)\<close> and \<open>int(v)\<close> of a tag
  (\<open>None\<close> when the call raises) and the truth value of a numpy array (\<open>None\<close> when numpy
  refuses to give one). Every function below takes the record as its first argument and is
  verified for all values of it.
\<close>

record ext =
  gzip_decompress :: "bytes \<Rightarrow> bytes option"
  zlib_decompress :: "bytes \<Rightarrow> bytes option"
  gzip_compress :: "bytes \<Rightarrow> bytes"
  zlib_compress :: "bytes \<Rightarrow> bytes"
  nbt_parse :: "bytes \<Rightarrow> nbt option"
  nbt_write :: "nbt \<Rightarrow> bytes option"
  py_str :: "nbt \<Rightarrow> string option"
  py_int :: "nbt \<Rightarrow> int option"
  ndarray_bool :: "int list \<Rightarrow> bool option"

section \<open>Chunk envelope codec\<close>

definition chunk_blob_compression_type :: "bytes \<Rightarrow> nat" where
  "chunk_blob_compression_type blob = (if length blob \<ge> 5 then unat (blob ! 4) else 2)"

definition decompress_chunk_nbt :: "ext \<Rightarrow> bytes \<Rightarrow> error + bytes" where
  "decompress_chunk_nbt lib blob =
     (if length blob < 5 then Inl InvalidChunkBlob
      else
        let len = int (from_bytes_big (take 4 blob));
            comp = unat (blob ! 4);
            payload = drop 5 blob
        in case (if len \<noteq> int (length payload) + 1
                 then (if len - 1 \<le> int (length payload)
                       then Inr (slice_to payload (len - 1))
                       else Inl ChunkLengthMismatch)
                 else Inr payload) of
             Inl e \<Rightarrow> Inl e
           | Inr payload \<Rightarrow>
               if comp = 1 then
                 (case gzip_decompress lib payload of
                    None \<Rightarrow> Inl DecompressFailed | Some raw \<Rightarrow> Inr raw)
               else if comp = 2 then
                 (case zlib_decompress lib payload of
                    None \<Rightarrow> Inl DecompressFailed | Some raw \<Rightarrow> Inr raw)
               else if comp = 3 then Inr payload
               else Inl (UnknownCompression comp))"

definition compress_chunk_nbt :: "ext \<Rightarrow> bytes \<Rightarrow> nat \<Rightarrow> error + bytes" where
  "compress_chunk_nbt lib nbt_bytes compression_type =
     (let (payload, compression_type) =
            (if compression_type = 1 then (gzip_compress lib nbt_bytes, compression_type)
             else if compression_type = 2 then (zlib_compress lib nbt_bytes, compression_type)
             else if compression_type = 3 then (nbt_bytes, compression_type)
             else (zlib_compress lib nbt_bytes, 2));
          len = length payload + 1
      in case to_bytes_big len 4 StructError of
           Inl e \<Rightarrow> Inl e
         | Inr hdr \<Rightarrow> Inr (hdr @ [word_of_nat compression_type] @ payload))"

text \<open>
  The envelope decoder as section 4.2 of the specification words it: a declared length
  that disagrees with the payload truncates the payload to \<open>L - 1\<close> bytes when that many
  are there, and fails otherwise; then the tag selects the decompressor.
\<close>

definition decompress_spec :: "ext \<Rightarrow> bytes \<Rightarrow> error + bytes" where
  "decompress_spec lib blob =
     (let L = from_bytes_big (take 4 blob);
          c = unat (blob ! 4);
          payload = drop 5 blob
      in if L \<noteq> length payload + 1 \<and> \<not> (int L - 1 \<le> int (length payload))
         then Inl ChunkLengthMismatch
         else
           let p = (if L \<noteq> length payload + 1 then take (L - 1) payload else payload)
           in if c = 1 then
                (case gzip_decompress lib p of
                   None \<Rightarrow> Inl DecompressFailed | Some raw \<Rightarrow> Inr raw)
              else if c = 2 then
                (case zlib_decompress lib p of
                   None \<Rightarrow> Inl DecompressFailed | Some raw \<Rightarrow> Inr raw)
              else if c = 3 then Inr p
              else Inl (UnknownCompression c))"

section \<open>Region codec\<close>

text \<open>
  A loop whose body may raise: the results of the bodies in order, or the first error
  (\<open>sequence_err\<close>), and a state threaded through the bodies until one raises
  (\<open>fold_err\<close>).
\<close>

fun sequence_err :: "(error + 'a) list \<Rightarrow> error + 'a list" where
  "sequence_err [] = Inr []"
| "sequence_err (r # rs) =
     (case r of
        Inl e \<Rightarrow> Inl e
      | Inr x \<Rightarrow> (case sequence_err rs of Inl e \<Rightarrow> Inl e | Inr xs \<Rightarrow> Inr (x # xs)))"

fun fold_err :: "('s \<Rightarrow> 'a \<Rightarrow> error + 's) \<Rightarrow> 'a list \<Rightarrow> 's \<Rightarrow> error + 's" where
  "fold_err f [] st = Inr st"
| "fold_err f (x # xs) st = (case f st x of Inl e \<Rightarrow> Inl e | Inr st' \<Rightarrow> fold_err f xs st')"

text \<open>
  One entry of the location table: \<open>entry[3]\<close> raises \<open>IndexError\<close> when the slice came out
  shorter than four bytes.
\<close>

definition read_location :: "bytes \<Rightarrow> nat \<Rightarrow> error + (nat \<times> nat)" where
  "read_location region_bytes i =
     (let entry = slice region_bytes (i * 4) (i * 4 + 4)
      in if length entry \<le> 3 then Inl IndexError
         else Inr (from_bytes_big (take 3 entry), unat (entry ! 3)))"

definition read_locations :: "bytes \<Rightarrow> error + (nat \<times> nat) list" where
  "read_locations region_bytes = sequence_err (map (read_location region_bytes) [0..<1024])"

definition get_chunk_blob :: "bytes \<Rightarrow> nat \<Rightarrow> nat \<Rightarrow> bytes option" where
  "get_chunk_blob region_bytes off_sectors sector_count =
     (if off_sectors = 0 \<or> sector_count = 0 then None
      else
        let start = off_sectors * SECTOR_BYTES;
            end = start + sector_count * SECTOR_BYTES
        in if start + 5 > length region_bytes \<or> end > length region_bytes then None
           else
             let len = from_bytes_big (slice region_bytes start (start + 4))
             in if len \<le> 0 then None
                else
                  let blob_end = start + 4 + len
                  in if blob_end > length region_bytes then None
                     else Some (slice region_bytes start blob_end))"

record ChunkPointer =
  idx :: nat
  off_sectors :: nat
  sector_count :: nat

definition iter_present_chunks :: "bytes \<Rightarrow> error + ChunkPointer list" where
  "iter_present_chunks region_bytes =
     (case read_locations region_bytes of
        Inl e \<Rightarrow> Inl e
      | Inr locs \<Rightarrow>
          Inr (map (\<lambda>(i, off, count). \<lparr>idx = i, off_sectors = off, sector_count = count\<rparr>)
                 (filter (\<lambda>(i, off, count). off \<noteq> 0 \<and> count \<noteq> 0) (enumerate 0 locs))))"

definition read_timestamps :: "bytes \<Rightarrow> nat list" where
  "read_timestamps region_bytes =
     map (\<lambda>i. from_bytes_big
                 (slice region_bytes (SECTOR_BYTES + i * 4) (SECTOR_BYTES + i * 4 + 4)))
       [0..<1024]"

text \<open>
  \<open>xs[i:j] = ys\<close> on a \<open>bytearray\<close>, for \<open>i \<le> j\<close>: the slice is replaced by \<open>ys\<close>.
\<close>

definition set_slice :: "'a list \<Rightarrow> nat \<Rightarrow> nat \<Rightarrow> 'a list \<Rightarrow> 'a list" where
  "set_slice xs i j ys = take i xs @ ys @ drop j xs"

text \<open>
  \<open>max(1, math.ceil(len(blob) / SECTOR_BYTES))\<close>. The quotient is a float; a division by
  4096 only changes the exponent, so the ceiling is the exact one.
\<close>

definition sectors_needed :: "bytes \<Rightarrow> nat" where
  "sectors_needed blob = max 1 ((length blob + (SECTOR_BYTES - 1)) div SECTOR_BYTES)"

text \<open>
  The blob and the timestamp that the body of the rebuild loop settles on for slot \<open>idx\<close>,
  \<open>None\<close> where it says \<open>continue\<close>.
\<close>

definition pick_blob ::
    "bytes \<Rightarrow> (nat \<rightharpoonup> bytes \<times> bool) \<Rightarrow> nat \<Rightarrow> (nat \<times> nat) list \<Rightarrow> nat list \<Rightarrow> nat
       \<Rightarrow> (bytes \<times> nat) option" where
  "pick_blob original updated_blobs now_ts locs ts i =
     (case locs ! i of
        (off, count) \<Rightarrow>
          if off = 0 \<or> count = 0 then None
          else
            (case updated_blobs i of
               Some (blob, was_changed) \<Rightarrow> Some (blob, if was_changed then now_ts else ts ! i)
             | None \<Rightarrow>
                 (case get_chunk_blob original off count of
                    None \<Rightarrow> None
                  | Some blob \<Rightarrow> Some (blob, ts ! i))))"

record rebuild_state =
  current_sector :: nat
  new_locs :: "(nat \<times> nat) list"
  new_ts :: "nat list"
  out :: bytes

definition rebuild_step ::
    "bytes \<Rightarrow> (nat \<rightharpoonup> bytes \<times> bool) \<Rightarrow> nat \<Rightarrow> (nat \<times> nat) list \<Rightarrow> nat list
       \<Rightarrow> rebuild_state \<Rightarrow> nat \<Rightarrow> error + rebuild_state" where
  "rebuild_step original updated_blobs now_ts locs ts st i =
     (case pick_blob original updated_blobs now_ts locs ts i of
        None \<Rightarrow> Inr st
      | Some (blob, t) \<Rightarrow>
          if sectors_needed blob > 255 then Inl (ChunkTooLarge (sectors_needed blob))
          else
            Inr \<lparr> current_sector = current_sector st + sectors_needed blob,
                  new_locs = (new_locs st)[i := (current_sector st, sectors_needed blob)],
                  new_ts = (new_ts st)[i := t],
                  out = out st @ blob
                          @ replicate (sectors_needed blob * SECTOR_BYTES - length blob) 0 \<rparr>)"

text \<open>The two loops that write the tables into the header.\<close>

definition write_location :: "bytes \<Rightarrow> nat \<times> nat \<times> nat \<Rightarrow> error + bytes" where
  "write_location header e =
     (case e of
        (i, off, count) \<Rightarrow>
          (case to_bytes_big off 3 OverflowError of
             Inl err \<Rightarrow> Inl err
           | Inr bs \<Rightarrow>
               Inr ((set_slice header (i * 4) (i * 4 + 3) bs)
                      [i * 4 + 3 := word_of_nat (count mod 256)])))"

definition write_timestamp :: "bytes \<Rightarrow> nat \<times> nat \<Rightarrow> error + bytes" where
  "write_timestamp header e =
     (case e of
        (i, tsv) \<Rightarrow>
          (case to_bytes_big tsv 4 OverflowError of
             Inl err \<Rightarrow> Inl err
           | Inr bs \<Rightarrow>
               Inr (set_slice header (SECTOR_BYTES + i * 4) (SECTOR_BYTES + i * 4 + 4) bs)))"

text \<open>
  \<open>_rebuild_region\<close>; \<open>now_ts\<close> is \<open>int(time.time())\<close>, read once before the loop.
\<close>

definition rebuild_region ::
    "bytes \<Rightarrow> (nat \<rightharpoonup> bytes \<times> bool) \<Rightarrow> nat \<Rightarrow> error + bytes" where
  "rebuild_region original updated_blobs now_ts =
     (case read_locations original of
        Inl e \<Rightarrow> Inl e
      | Inr locs \<Rightarrow>
          let ts = read_timestamps original;
              header = replicate HEADER_BYTES 0;
              st0 = \<lparr> current_sector = 2, new_locs = replicate 1024 (0, 0),
                      new_ts = replicate 1024 0, out = header \<rparr>
          in case fold_err (rebuild_step original updated_blobs now_ts locs ts) [0..<1024] st0 of
               Inl e \<Rightarrow> Inl e
             | Inr st \<Rightarrow>
                 (case fold_err write_location (enumerate 0 (new_locs st)) header of
                    Inl e \<Rightarrow> Inl e
                  | Inr header \<Rightarrow>
                      (case fold_err write_timestamp (enumerate 0 (new_ts st)) header of
                         Inl e \<Rightarrow> Inl e
                       | Inr header \<Rightarrow> Inr (set_slice (out st) 0 HEADER_BYTES header))))"

section \<open>Biome names\<close>

text \<open>\<open>s.startswith(p)\<close> and \<open>s.split(":", 1)[1]\<close> (the text after the first colon).\<close>

definition startswith :: "string \<Rightarrow> string \<Rightarrow> bool" where
  "startswith s p = (take (length p) s = p)"

definition after_first_colon :: "string \<Rightarrow> string" where
  "after_first_colon s = tl (dropWhile (\<lambda>c. c \<noteq> CHR '':'') s)"

definition normalize_biome_name :: "string \<Rightarrow> string" where
  "normalize_biome_name name =
     (if startswith name ''universal_minecraft:'' then ''minecraft:'' @ after_first_colon name
      else if startswith name ''universal_terralith:'' then ''terralith:'' @ after_first_colon name
      else name)"

definition normalize_target_biome_id :: "string \<Rightarrow> string" where
  "normalize_target_biome_id name =
     (if name = ''minecraft:mountains'' then ''minecraft:windswept_hills'' else name)"

section \<open>NBT traversal\<close>

text \<open>
  The truth value Python gives a tag in \<open>not x\<close> and \<open>x or y\<close>: a number is true when it
  is not zero (for a float: not \<open>+0.0\<close> or \<open>-0.0\<close>), a string, list or compound when it is
  not empty; numpy decides for an array, and may raise.
\<close>

fun truthy :: "ext \<Rightarrow> nbt \<Rightarrow> error + bool" where
  "truthy lib (Byte v) = Inr (v \<noteq> 0)"
| "truthy lib (Short v) = Inr (v \<noteq> 0)"
| "truthy lib (IntTag v) = Inr (v \<noteq> 0)"
| "truthy lib (Long v) = Inr (v \<noteq> 0)"
| "truthy lib (Float w) = Inr (w AND 0x7FFFFFFF \<noteq> 0)"
| "truthy lib (Double w) = Inr (w AND 0x7FFFFFFFFFFFFFFF \<noteq> 0)"
| "truthy lib (String s) = Inr (s \<noteq> [])"
| "truthy lib (List xs) = Inr (xs \<noteq> [])"
| "truthy lib (Compound kvs) = Inr (kvs \<noteq> [])"
| "truthy lib (ByteArray xs) =
     (case ndarray_bool lib xs of None \<Rightarrow> Inl TruthValueError | Some b \<Rightarrow> Inr b)"
| "truthy lib (IntArray xs) =
     (case ndarray_bool lib xs of None \<Rightarrow> Inl TruthValueError | Some b \<Rightarrow> Inr b)"
| "truthy lib (LongArray xs) =
     (case ndarray_bool lib xs of None \<Rightarrow> Inl TruthValueError | Some b \<Rightarrow> Inr b)"

text \<open>The truth value of an \<open>Optional[str]\<close>: \<open>None\<close> and the empty string are false.\<close>

definition str_truthy :: "string option \<Rightarrow> bool" where
  "str_truthy x = (case x of None \<Rightarrow> False | Some s \<Rightarrow> s \<noteq> [])"

text \<open>
  \<open>isinstance(x, dict)\<close> and \<open>isinstance(x, MutableSequence)\<close> on the result of a
  \<open>dict.get\<close>: the entries of a compound, the elements of a list, \<open>None\<close> for anything
  else and for a missing key.
\<close>

fun as_compound :: "nbt option \<Rightarrow> (string \<times> nbt) list option" where
  "as_compound (Some (Compound kvs)) = Some kvs"
| "as_compound _ = None"

fun as_list :: "nbt option \<Rightarrow> nbt list option" where
  "as_list (Some (List xs)) = Some xs"
| "as_list _ = None"

definition get_sections :: "nbt \<Rightarrow> nbt option" where
  "get_sections root =
     (case as_compound (Some root) of
        None \<Rightarrow> None
      | Some kvs \<Rightarrow>
          (case map_of kvs ''sections'' of
             Some v \<Rightarrow> Some v
           | None \<Rightarrow>
               (case map_of kvs ''Sections'' of
                  Some v \<Rightarrow> Some v
                | None \<Rightarrow>
                    (case as_compound (map_of kvs ''Level'') of
                       None \<Rightarrow> None
                     | Some lvl \<Rightarrow>
                         (case map_of lvl ''sections'' of
                            Some v \<Rightarrow> Some v
                          | None \<Rightarrow> map_of lvl ''Sections'')))))"

text \<open>
  The program mutates the sections in place. \<open>put_sections root v\<close> is the root after the
  value that \<open>get_sections\<close> returns has become \<open>v\<close>.
\<close>

definition put_sections :: "nbt \<Rightarrow> nbt \<Rightarrow> nbt" where
  "put_sections root v =
     (case as_compound (Some root) of
        None \<Rightarrow> root
      | Some kvs \<Rightarrow>
          (case map_of kvs ''sections'' of
             Some _ \<Rightarrow> Compound (AList.update ''sections'' v kvs)
           | None \<Rightarrow>
               (case map_of kvs ''Sections'' of
                  Some _ \<Rightarrow> Compound (AList.update ''Sections'' v kvs)
                | None \<Rightarrow>
                    (case as_compound (map_of kvs ''Level'') of
                       None \<Rightarrow> root
                     | Some lvl \<Rightarrow>
                         (case map_of lvl ''sections'' of
                            Some _ \<Rightarrow>
                              Compound (AList.update ''Level''
                                (Compound (AList.update ''sections'' v lvl)) kvs)
                          | None \<Rightarrow>
                              (case map_of lvl ''Sections'' of
                                 Some _ \<Rightarrow>
                                   Compound (AList.update ''Level''
                                     (Compound (AList.update ''Sections'' v lvl)) kvs)
                               | None \<Rightarrow> root))))))"

definition section_y :: "ext \<Rightarrow> nbt \<Rightarrow> int option" where
  "section_y lib section =
     (case as_compound (Some section) of
        None \<Rightarrow> None
      | Some kvs \<Rightarrow> (case map_of kvs ''Y'' of Some v \<Rightarrow> py_int lib v | None \<Rightarrow> None))"

text \<open>
  \<open>biomes.get("palette") or biomes.get("Palette")\<close>: the first value when it is true, the
  second otherwise, with the key the result was read from. Taking the truth value of the
  first may raise.
\<close>

definition palette_or_Palette ::
    "ext \<Rightarrow> (string \<times> nbt) list \<Rightarrow> error + (string \<times> nbt option)" where
  "palette_or_Palette lib biomes =
     (case map_of biomes ''palette'' of
        None \<Rightarrow> Inr (''Palette'', map_of biomes ''Palette'')
      | Some x \<Rightarrow>
          (case truthy lib x of
             Inl e \<Rightarrow> Inl e
           | Inr t \<Rightarrow> if t then Inr (''palette'', Some x)
                      else Inr (''Palette'', map_of biomes ''Palette'')))"

text \<open>
  The generator \<open>_iter_biome_palette_lists\<close>: the palettes it yields, in order, each with
  the two keys it was found under, and the exception that ends it, if one does. The
  consumer handles every yielded palette before the generator runs on. The two blocks of
  the generator are \<open>iter_biomes\<close> (key \<open>biomes\<close>) and \<open>iter_Biomes\<close> (key \<open>Biomes\<close>).
\<close>

type_synonym palette_ref = "(string \<times> string) \<times> nbt list"

definition iter_biomes :: "(string \<times> nbt) list \<Rightarrow> palette_ref list" where
  "iter_biomes section =
     (case as_compound (map_of section ''biomes'') of
        None \<Rightarrow> []
      | Some biomes \<Rightarrow>
          (case as_list (map_of biomes ''palette'') of
             None \<Rightarrow> []
           | Some pal \<Rightarrow> [((''biomes'', ''palette''), pal)]))"

definition iter_Biomes :: "ext \<Rightarrow> (string \<times> nbt) list \<Rightarrow> palette_ref list \<times> error option" where
  "iter_Biomes lib section =
     (case as_compound (map_of section ''Biomes'') of
        None \<Rightarrow> ([], None)
      | Some biomes \<Rightarrow>
          (case palette_or_Palette lib biomes of
             Inl e \<Rightarrow> ([], Some e)
           | Inr (key, pal) \<Rightarrow>
               (case as_list pal of
                  None \<Rightarrow> ([], None)
                | Some pal \<Rightarrow> ([((''Biomes'', key), pal)], None))))"

definition iter_biome_palette_lists :: "ext \<Rightarrow> nbt \<Rightarrow> palette_ref list \<times> error option" where
  "iter_biome_palette_lists lib section =
     (case as_compound (Some section) of
        None \<Rightarrow> ([], None)
      | Some kvs \<Rightarrow> (iter_biomes kvs @ fst (iter_Biomes lib kvs), snd (iter_Biomes lib kvs)))"

text \<open>
  The section after the palette at the given keys has become \<open>pal\<close> (the palette is
  mutated in place).
\<close>

definition put_palette :: "nbt \<Rightarrow> string \<times> string \<Rightarrow> nbt list \<Rightarrow> nbt" where
  "put_palette section loc pal =
     (case as_compound (Some section) of
        None \<Rightarrow> section
      | Some kvs \<Rightarrow>
          (case as_compound (map_of kvs (fst loc)) of
             None \<Rightarrow> section
           | Some biomes \<Rightarrow>
               Compound (AList.update (fst loc)
                 (Compound (AList.update (snd loc) (List pal) biomes)) kvs)))"

section \<open>The palette remap\<close>

text \<open>
  The parameters \<open>debug_samples\<close> and \<open>debug_limit\<close> of \<open>_remap_chunk_biome_palettes\<close>
  only collect strings for the log; that loop cannot raise and touches neither the
  palettes nor the two counters, and it is left out. The two counters \<open>changed\<close> and
  \<open>entries_changed\<close> are threaded through the loops as a pair.

  The body of the loop over \<open>range(len(palette))\<close>, for one entry. An nbtlib list holds
  tags of one type: \<open>palette[i] = nbtlib.String(new)\<close> stores the string in a list of
  strings and raises in a list of any other tag.
\<close>

type_synonym counters = "bool \<times> nat"

definition remap_entry ::
    "ext \<Rightarrow> (string \<rightharpoonup> string) \<Rightarrow> string option \<Rightarrow> nbt \<Rightarrow> counters \<Rightarrow> error + (nbt \<times> counters)" where
  "remap_entry lib mapping unmapped_terralith_to v st =
     (case py_str lib v of
        None \<Rightarrow> Inr (v, st)
      | Some raw \<Rightarrow>
          let norm = normalize_biome_name raw;
              new = mapping norm;
              new = (if \<not> str_truthy new \<and> str_truthy unmapped_terralith_to
                        \<and> startswith norm ''terralith:''
                     then unmapped_terralith_to else new)
          in if str_truthy new \<and> new \<noteq> Some norm
             then (case (new, v) of
                     (Some n, String _) \<Rightarrow> Inr (String n, (True, snd st + 1))
                   | _ \<Rightarrow> Inl IncompatibleItemType)
             else Inr (v, st))"

fun remap_palette ::
    "ext \<Rightarrow> (string \<rightharpoonup> string) \<Rightarrow> string option \<Rightarrow> nbt list \<Rightarrow> counters
       \<Rightarrow> error + (nbt list \<times> counters)" where
  "remap_palette lib mapping F [] st = Inr ([], st)"
| "remap_palette lib mapping F (v # vs) st =
     (case remap_entry lib mapping F v st of
        Inl e \<Rightarrow> Inl e
      | Inr (v', st') \<Rightarrow>
          (case remap_palette lib mapping F vs st' of
             Inl e \<Rightarrow> Inl e
           | Inr (vs', st'') \<Rightarrow> Inr (v' # vs', st'')))"

text \<open>The loop over the palettes that the generator yields for one section.\<close>

fun remap_yielded ::
    "ext \<Rightarrow> (string \<rightharpoonup> string) \<Rightarrow> string option \<Rightarrow> nbt \<Rightarrow> palette_ref list \<Rightarrow> counters
       \<Rightarrow> error + (nbt \<times> counters)" where
  "remap_yielded lib mapping F section [] st = Inr (section, st)"
| "remap_yielded lib mapping F section ((loc, pal) # rest) st =
     (case remap_palette lib mapping F pal st of
        Inl e \<Rightarrow> Inl e
      | Inr (pal', st') \<Rightarrow> remap_yielded lib mapping F (put_palette section loc pal') rest st')"

text \<open>The test that makes the loop over the sections \<open>continue\<close>.\<close>

definition y_filtered_out :: "int option \<Rightarrow> int option \<Rightarrow> int option \<Rightarrow> bool" where
  "y_filtered_out sy y_min y_max =
     (case (sy, y_min, y_max) of
        (Some sy, Some y_min, Some y_max) \<Rightarrow>
          (let sec_min = sy * 16; sec_max = sec_min + 15
           in sec_max < y_min \<or> sec_min > y_max)
      | _ \<Rightarrow> False)"

text \<open>
  The loop over the palettes that the generator yields for one section, with the exception
  the generator may raise after its last palette: the part of the body of the section loop
  that comes after the Y test.
\<close>

definition remap_section_palettes ::
    "ext \<Rightarrow> (string \<rightharpoonup> string) \<Rightarrow> string option \<Rightarrow> nbt \<Rightarrow> counters
       \<Rightarrow> error + (nbt \<times> counters)" where
  "remap_section_palettes lib mapping F section st =
     (case iter_biome_palette_lists lib section of
        (yielded, raised) \<Rightarrow>
          (case remap_yielded lib mapping F section yielded st of
             Inl e \<Rightarrow> Inl e
           | Inr (section', st') \<Rightarrow>
               (case raised of Some e \<Rightarrow> Inl e | None \<Rightarrow> Inr (section', st'))))"

text \<open>The body of the loop over the sections.\<close>

definition remap_section ::
    "ext \<Rightarrow> (string \<rightharpoonup> string) \<Rightarrow> int option \<Rightarrow> int option \<Rightarrow> string option \<Rightarrow> nbt
       \<Rightarrow> counters \<Rightarrow> error + (nbt \<times> counters)" where
  "remap_section lib mapping y_min y_max F section st =
     (if y_filtered_out (section_y lib section) y_min y_max then Inr (section, st)
      else remap_section_palettes lib mapping F section st)"

fun remap_sections ::
    "ext \<Rightarrow> (string \<rightharpoonup> string) \<Rightarrow> int option \<Rightarrow> int option \<Rightarrow> string option \<Rightarrow> nbt list
       \<Rightarrow> counters \<Rightarrow> error + (nbt list \<times> counters)" where
  "remap_sections lib mapping y_min y_max F [] st = Inr ([], st)"
| "remap_sections lib mapping y_min y_max F (s # ss) st =
     (case remap_section lib mapping y_min y_max F s st of
        Inl e \<Rightarrow> Inl e
      | Inr (s', st') \<Rightarrow>
          (case remap_sections lib mapping y_min y_max F ss st' of
             Inl e \<Rightarrow> Inl e
           | Inr (ss', st'') \<Rightarrow> Inr (s' # ss', st'')))"

text \<open>
  \<open>_remap_chunk_biome_palettes\<close>: the root after the in-place edits, with the pair the
  function returns. \<open>for section in sections\<close> runs over the elements of a list; a number
  is not iterable; a compound, a string or an array gives keys, characters or numbers, none
  of which is a \<open>dict\<close>, so the body does nothing for them.
\<close>

definition remap_chunk_biome_palettes ::
    "ext \<Rightarrow> nbt \<Rightarrow> (string \<rightharpoonup> string) \<Rightarrow> int option \<Rightarrow> int option \<Rightarrow> string option
       \<Rightarrow> error + (nbt \<times> bool \<times> nat)" where
  "remap_chunk_biome_palettes lib root mapping y_min y_max F =
     (case get_sections root of
        None \<Rightarrow> Inr (root, False, 0)
      | Some sections \<Rightarrow>
          (case truthy lib sections of
             Inl e \<Rightarrow> Inl e
           | Inr False \<Rightarrow> Inr (root, False, 0)
           | Inr True \<Rightarrow>
               (case sections of
                  List secs \<Rightarrow>
                    (case remap_sections lib mapping y_min y_max F secs (False, 0) of
                       Inl e \<Rightarrow> Inl e
                     | Inr (secs', st) \<Rightarrow> Inr (put_sections root (List secs'), st))
                | Byte _ \<Rightarrow> Inl TypeError
                | Short _ \<Rightarrow> Inl TypeError
                | IntTag _ \<Rightarrow> Inl TypeError
                | Long _ \<Rightarrow> Inl TypeError
                | Float _ \<Rightarrow> Inl TypeError
                | Double _ \<Rightarrow> Inl TypeError
                | _ \<Rightarrow> Inr (root, False, 0))))"

section \<open>Region worker\<close>

text \<open>
  The body of the \<open>try\<close> block of \<open>_process_region_file\<close> for one chunk: \<open>Inl\<close> when
  anything in it raises (the \<open>except\<close> branch), otherwise the recompressed blob and the
  number of palette entries changed, or \<open>None\<close> when the remap changed nothing. The block
  only prints under \<open>debug_structure\<close>, inside a \<open>try\<close> of its own; that part is left out.
\<close>

definition try_chunk ::
    "ext \<Rightarrow> (string \<rightharpoonup> string) \<Rightarrow> int option \<Rightarrow> int option \<Rightarrow> string option \<Rightarrow> bytes \<Rightarrow> nat
       \<Rightarrow> error + (bytes \<times> nat) option" where
  "try_chunk lib mapping y_min y_max F blob compression_type =
     (case decompress_chunk_nbt lib blob of
        Inl e \<Rightarrow> Inl e
      | Inr raw_nbt \<Rightarrow>
          (case nbt_parse lib raw_nbt of
             None \<Rightarrow> Inl NbtParseFailed
           | Some root \<Rightarrow>
               (case remap_chunk_biome_palettes lib root mapping y_min y_max F of
                  Inl e \<Rightarrow> Inl e
                | Inr (root', was_changed, ec) \<Rightarrow>
                    if was_changed then
                      (case nbt_write lib root' of
                         None \<Rightarrow> Inl NbtWriteFailed
                       | Some new_raw \<Rightarrow>
                           (case compress_chunk_nbt lib new_raw compression_type of
                              Inl e \<Rightarrow> Inl e
                            | Inr new_blob \<Rightarrow> Inr (Some (new_blob, ec))))
                    else Inr None)))"

record report =
  processed :: nat
  changed :: nat
  entries_changed :: nat
  parse_errors :: nat

text \<open>The body of the loop over the present chunks.\<close>

definition process_chunk ::
    "ext \<Rightarrow> (string \<rightharpoonup> string) \<Rightarrow> int option \<Rightarrow> int option \<Rightarrow> string option \<Rightarrow> bytes
       \<Rightarrow> ChunkPointer \<Rightarrow> report \<times> (nat \<rightharpoonup> bytes \<times> bool) \<Rightarrow> report \<times> (nat \<rightharpoonup> bytes \<times> bool)" where
  "process_chunk lib mapping y_min y_max F original ptr st =
     (case st of
        (rep, updated_blobs) \<Rightarrow>
          (case get_chunk_blob original (off_sectors ptr) (sector_count ptr) of
             None \<Rightarrow> (rep, updated_blobs)
           | Some blob \<Rightarrow>
               let rep = rep\<lparr>processed := processed rep + 1\<rparr>;
                   comp = chunk_blob_compression_type blob
               in case try_chunk lib mapping y_min y_max F blob comp of
                    Inl e \<Rightarrow> (rep\<lparr>parse_errors := parse_errors rep + 1\<rparr>, updated_blobs)
                  | Inr None \<Rightarrow> (rep, updated_blobs)
                  | Inr (Some (new_blob, ec)) \<Rightarrow>
                      (rep\<lparr>changed := changed rep + 1,
                           entries_changed := entries_changed rep + ec\<rparr>,
                       updated_blobs(idx ptr \<mapsto> (new_blob, True)))))"

definition process_chunks ::
    "ext \<Rightarrow> (string \<rightharpoonup> string) \<Rightarrow> int option \<Rightarrow> int option \<Rightarrow> string option \<Rightarrow> bytes
       \<Rightarrow> ChunkPointer list \<Rightarrow> report \<times> (nat \<rightharpoonup> bytes \<times> bool)" where
  "process_chunks lib mapping y_min y_max F original ptrs =
     fold (process_chunk lib mapping y_min y_max F original) ptrs
       (\<lparr>processed = 0, changed = 0, entries_changed = 0, parse_errors = 0\<rparr>, Map.empty)"

text \<open>
  \<open>_process_region_file\<close> on the bytes read from the region file: the counters, the bytes
  written over the region file (\<open>None\<close> when the file is not touched) and the bytes written
  to the backup file (\<open>None\<close> when none is written). \<open>backup_exists\<close> is
  \<open>backup_path.exists()\<close> and \<open>now_ts\<close> the clock read by the rebuild.
\<close>

record outcome =
  counters_of :: report
  new_region :: "bytes option"
  new_backup :: "bytes option"

definition process_region_file ::
    "ext \<Rightarrow> (string \<rightharpoonup> string) \<Rightarrow> int option \<Rightarrow> int option \<Rightarrow> string option \<Rightarrow> bool \<Rightarrow> bool
       \<Rightarrow> bool \<Rightarrow> nat \<Rightarrow> bytes \<Rightarrow> error + outcome" where
  "process_region_file lib mapping y_min y_max F dry_run make_backup backup_exists now_ts original =
     (case iter_present_chunks original of
        Inl e \<Rightarrow> Inl e
      | Inr ptrs \<Rightarrow>
          (case process_chunks lib mapping y_min y_max F original ptrs of
             (rep, updated_blobs) \<Rightarrow>
               if changed rep = 0 \<or> dry_run
               then Inr \<lparr>counters_of = rep, new_region = None, new_backup = None\<rparr>
               else
                 (case rebuild_region original updated_blobs now_ts of
                    Inl e \<Rightarrow> Inl e
                  | Inr rebuilt \<Rightarrow>
                      Inr \<lparr>counters_of = rep, new_region = Some rebuilt,
                           new_backup = (if make_backup \<and> \<not> backup_exists
                                         then Some original else None)\<rparr>)))"

section \<open>The layout of a rebuilt region\<close>

text \<open>
  The rebuilt file described directly. For a choice \<open>pick\<close> of blob and timestamp per
  slot (\<open>None\<close> for a slot that is not emitted): \<open>slot_sectors\<close> is the number of sectors
  of slot \<open>i\<close>, \<open>slot_offset\<close> the sector where it starts (sector 2 plus the sectors of the
  slots before it), \<open>slot_bytes\<close> its blob padded with zeros to whole sectors,
  \<open>loc_entry\<close> and \<open>ts_entry\<close> its entries in the two tables, \<open>enc_loc\<close> and \<open>enc_ts\<close>
  the four bytes of an entry, \<open>state_at pick k\<close> the state of the rebuild loop after \<open>k\<close>
  slots and \<open>rebuilt_bytes\<close> the whole file. \<open>blob_ok\<close> says that a blob is as long as
  its length field declares.
\<close>

definition enc_loc :: "nat \<times> nat \<Rightarrow> bytes" where
  "enc_loc e = be_digits 3 (fst e) @ [word_of_nat (snd e mod 256)]"

definition enc_ts :: "nat \<Rightarrow> bytes" where
  "enc_ts t = be_digits 4 t"

type_synonym picker = "nat \<Rightarrow> (bytes \<times> nat) option"

definition slot_sectors :: "picker \<Rightarrow> nat \<Rightarrow> nat" where
  "slot_sectors pick i = (case pick i of None \<Rightarrow> 0 | Some (blob, t) \<Rightarrow> sectors_needed blob)"

definition slot_offset :: "picker \<Rightarrow> nat \<Rightarrow> nat" where
  "slot_offset pick i = 2 + sum_list (map (slot_sectors pick) [0..<i])"

definition slot_bytes :: "picker \<Rightarrow> nat \<Rightarrow> bytes" where
  "slot_bytes pick i =
     (case pick i of
        None \<Rightarrow> []
      | Some (blob, t) \<Rightarrow>
          blob @ replicate (sectors_needed blob * SECTOR_BYTES - length blob) 0)"

definition loc_entry :: "picker \<Rightarrow> nat \<Rightarrow> nat \<times> nat" where
  "loc_entry pick i =
     (case pick i of
        None \<Rightarrow> (0, 0)
      | Some (blob, t) \<Rightarrow> (slot_offset pick i, sectors_needed blob))"

definition ts_entry :: "picker \<Rightarrow> nat \<Rightarrow> nat" where
  "ts_entry pick i = (case pick i of None \<Rightarrow> 0 | Some (blob, t) \<Rightarrow> t)"

definition state_at :: "picker \<Rightarrow> nat \<Rightarrow> rebuild_state" where
  "state_at pick k =
     \<lparr> current_sector = slot_offset pick k,
       new_locs = map (\<lambda>i. if i < k then loc_entry pick i else (0, 0)) [0..<1024],
       new_ts = map (\<lambda>i. if i < k then ts_entry pick i else 0) [0..<1024],
       out = replicate HEADER_BYTES 0 @ concat (map (slot_bytes pick) [0..<k]) \<rparr>"

definition rebuilt_bytes :: "picker \<Rightarrow> bytes" where
  "rebuilt_bytes pick =
     concat (map enc_loc (map (loc_entry pick) [0..<1024]))
       @ concat (map enc_ts (map (ts_entry pick) [0..<1024]))
       @ concat (map (slot_bytes pick) [0..<1024])"

definition blob_ok :: "bytes \<Rightarrow> bool" where
  "blob_ok blob = (0 < from_bytes_big (take 4 blob) \<and> length blob = 4 + from_bytes_big (take 4 blob))"

section \<open>The chunks of a region, slot by slot\<close>

text \<open>
  What the loop over the present chunks does to one slot with location entry \<open>loc\<close>:
  \<open>rewritten\<close> is the recompressed blob with the number of palette entries changed when
  the chunk was extracted, edited and changed, \<open>parse_failed\<close> holds when the chunk was
  extracted and the \<open>try\<close> block raised. \<open>slot_present\<close> is the test of
  \<open>_iter_present_chunks\<close>, \<open>present_ptrs\<close> the pointers it yields and \<open>updated_of\<close> the
  dictionary \<open>updated_blobs\<close> after the loop.
\<close>

definition rewritten ::
    "ext \<Rightarrow> (string \<rightharpoonup> string) \<Rightarrow> int option \<Rightarrow> int option \<Rightarrow> string option \<Rightarrow> bytes \<Rightarrow> nat \<times> nat
       \<Rightarrow> (bytes \<times> nat) option" where
  "rewritten lib M y_min y_max F original loc =
     (case get_chunk_blob original (fst loc) (snd loc) of
        None \<Rightarrow> None
      | Some blob \<Rightarrow>
          (case try_chunk lib M y_min y_max F blob (chunk_blob_compression_type blob) of
             Inl e \<Rightarrow> None
           | Inr r \<Rightarrow> r))"

definition parse_failed ::
    "ext \<Rightarrow> (string \<rightharpoonup> string) \<Rightarrow> int option \<Rightarrow> int option \<Rightarrow> string option \<Rightarrow> bytes \<Rightarrow> nat \<times> nat
       \<Rightarrow> bool" where
  "parse_failed lib M y_min y_max F original loc =
     (case get_chunk_blob original (fst loc) (snd loc) of
        None \<Rightarrow> False
      | Some blob \<Rightarrow>
          (case try_chunk lib M y_min y_max F blob (chunk_blob_compression_type blob) of
             Inl e \<Rightarrow> True
           | Inr r \<Rightarrow> False))"

definition slot_present :: "nat \<times> nat \<Rightarrow> bool" where
  "slot_present loc = (fst loc \<noteq> 0 \<and> snd loc \<noteq> 0)"

definition updated_of ::
    "ext \<Rightarrow> (string \<rightharpoonup> string) \<Rightarrow> int option \<Rightarrow> int option \<Rightarrow> string option \<Rightarrow> bytes
       \<Rightarrow> (nat \<times> nat) list \<Rightarrow> (nat \<rightharpoonup> bytes \<times> bool)" where
  "updated_of lib M y_min y_max F original locs i =
     (if i < length locs \<and> slot_present (locs ! i)
      then (case rewritten lib M y_min y_max F original (locs ! i) of
              None \<Rightarrow> None
            | Some (new_blob, ec) \<Rightarrow> Some (new_blob, True))
      else None)"

abbreviation (input) loc_of :: "ChunkPointer \<Rightarrow> nat \<times> nat" where
  "loc_of p \<equiv> (off_sectors p, sector_count p)"

definition present_ptrs :: "(nat \<times> nat) list \<Rightarrow> ChunkPointer list" where
  "present_ptrs locs =
     map (\<lambda>i. \<lparr>idx = i, off_sectors = fst (locs ! i), sector_count = snd (locs ! i)\<rparr>)
       (filter (\<lambda>i. slot_present (locs ! i)) [0..<length locs])"

text \<open>
  What the body of the entry loop stores for an entry that reads as \<open>raw\<close>, \<open>None\<close> when
  it leaves the entry alone; \<open>targets_fixed\<close> says that no id the loop can store is itself
  an id the loop would replace, and \<open>palette_fixed\<close> that a run over a palette changes
  nothing.
\<close>

definition remap_writes :: "(string \<rightharpoonup> string) \<Rightarrow> string option \<Rightarrow> string \<Rightarrow> string option" where
  "remap_writes mapping unmapped_terralith_to raw =
     (let norm = normalize_biome_name raw;
          new = mapping norm;
          new = (if \<not> str_truthy new \<and> str_truthy unmapped_terralith_to
                    \<and> startswith norm ''terralith:''
                 then unmapped_terralith_to else new)
      in if str_truthy new \<and> new \<noteq> Some norm then new else None)"

definition targets_fixed :: "(string \<rightharpoonup> string) \<Rightarrow> string option \<Rightarrow> bool" where
  "targets_fixed M F = (\<forall>raw R. remap_writes M F raw = Some R \<longrightarrow> remap_writes M F R = None)"

definition palette_fixed :: "ext \<Rightarrow> (string \<rightharpoonup> string) \<Rightarrow> string option \<Rightarrow> nbt list \<Rightarrow> bool" where
  "palette_fixed lib M F q = (\<forall>st. remap_palette lib M F q st = Inr (q, st))"

section \<open>The remap step as the specification words it\<close>

text \<open>
  Section 4.3 of the specification: normalize (\<open>universal_minecraft:X\<close> becomes
  \<open>minecraft:X\<close>, \<open>universal_terralith:X\<close> becomes \<open>terralith:X\<close>), look the normalized id
  up in \<open>M\<close>, use the fallback \<open>F\<close> when the lookup fails, the id starts with
  \<open>terralith:\<close> and \<open>F\<close> is set; the entry is overwritten with the replacement \<open>R\<close> when
  there is one and it differs from the normalized id. \<open>palette_changes\<close>,
  \<open>section_changes\<close> and \<open>chunk_changes\<close> count the entries so overwritten in a palette,
  in the palettes of a section that the Y filter lets through, and in a chunk.
\<close>

definition normalize_spec :: "string \<Rightarrow> string" where
  "normalize_spec raw =
     (if startswith raw ''universal_minecraft:'' then ''minecraft:'' @ drop 20 raw
      else if startswith raw ''universal_terralith:'' then ''terralith:'' @ drop 20 raw
      else raw)"

definition replacement :: "(string \<rightharpoonup> string) \<Rightarrow> string option \<Rightarrow> string \<Rightarrow> string option" where
  "replacement M F norm =
     (case M norm of
        Some r \<Rightarrow> Some r
      | None \<Rightarrow> (if startswith norm ''terralith:'' then F else None))"

definition overwrite_spec :: "(string \<rightharpoonup> string) \<Rightarrow> string option \<Rightarrow> string \<Rightarrow> string option" where
  "overwrite_spec M F raw =
     (let norm = normalize_spec raw
      in case replacement M F norm of
           Some R \<Rightarrow> if R \<noteq> norm then Some R else None
         | None \<Rightarrow> None)"

definition entry_spec :: "ext \<Rightarrow> (string \<rightharpoonup> string) \<Rightarrow> string option \<Rightarrow> nbt \<Rightarrow> nbt" where
  "entry_spec lib M F v =
     (case py_str lib v of
        None \<Rightarrow> v
      | Some raw \<Rightarrow> (case overwrite_spec M F raw of Some R \<Rightarrow> String R | None \<Rightarrow> v))"

definition entry_changes :: "ext \<Rightarrow> (string \<rightharpoonup> string) \<Rightarrow> string option \<Rightarrow> nbt \<Rightarrow> bool" where
  "entry_changes lib M F v =
     (case py_str lib v of None \<Rightarrow> False | Some raw \<Rightarrow> overwrite_spec M F raw \<noteq> None)"

definition palette_changes :: "ext \<Rightarrow> (string \<rightharpoonup> string) \<Rightarrow> string option \<Rightarrow> nbt list \<Rightarrow> nat" where
  "palette_changes lib M F pal = length (filter (entry_changes lib M F) pal)"

definition section_changes ::
    "ext \<Rightarrow> (string \<rightharpoonup> string) \<Rightarrow> int option \<Rightarrow> int option \<Rightarrow> string option \<Rightarrow> nbt \<Rightarrow> nat" where
  "section_changes lib M y_min y_max F section =
     (if y_filtered_out (section_y lib section) y_min y_max then 0
      else sum_list (map (\<lambda>r. palette_changes lib M F (snd r))
                      (fst (iter_biome_palette_lists lib section))))"

definition chunk_changes ::
    "ext \<Rightarrow> (string \<rightharpoonup> string) \<Rightarrow> int option \<Rightarrow> int option \<Rightarrow> string option \<Rightarrow> nbt \<Rightarrow> nat" where
  "chunk_changes lib M y_min y_max F root =
     (case get_sections root of
        Some (List secs) \<Rightarrow> sum_list (map (section_changes lib M y_min y_max F) secs)
      | _ \<Rightarrow> 0)"

definition add_changes :: "counters \<Rightarrow> nat \<Rightarrow> counters" where
  "add_changes st k = (fst st \<or> 0 < k, snd st + k)"

text \<open>
  A fixed instance of the library record for evaluating the functions on concrete inputs:
  both compression schemes store their input unchanged, the parser reads one byte as a
  chunk whose single section holds a one-entry biome palette, and \<open>str\<close> and \<open>int\<close> are
  defined on string and integer tags only.
\<close>

definition sample_root :: "string \<Rightarrow> nbt" where
  "sample_root b =
     Compound [(''sections'',
       List [Compound [(''Y'', Byte 4),
                       (''biomes'', Compound [(''palette'', List [String b])])]])]"

definition sample_ext :: ext where
  "sample_ext = \<lparr>
     gzip_decompress = Some,
     zlib_decompress = Some,
     gzip_compress = (\<lambda>bs. bs),
     zlib_compress = (\<lambda>bs. bs),
     nbt_parse = (\<lambda>bs. if bs = [1] then Some (sample_root ''terralith:yellowstone'')
                        else if bs = [2] then Some (sample_root ''minecraft:badlands'')
                        else None),
     nbt_write = (\<lambda>v. if v = sample_root ''terralith:yellowstone'' then Some [1]
                       else if v = sample_root ''minecraft:badlands'' then Some [2]
                       else None),
     py_str = (\<lambda>v. case v of String s \<Rightarrow> Some s | _ \<Rightarrow> None),
     py_int = (\<lambda>v. case v of Byte i \<Rightarrow> Some i | Short i \<Rightarrow> Some i | IntTag i \<Rightarrow> Some i
                      | Long i \<Rightarrow> Some i | _ \<Rightarrow> None),
     ndarray_bool = (\<lambda>xs. case xs of [] \<Rightarrow> Some False | [x] \<Rightarrow> Some (x \<noteq> 0) | _ \<Rightarrow> None) \<rparr>"

definition sample_mapping :: "string \<rightharpoonup> string" where
  "sample_mapping = map_of [(''terralith:yellowstone'', ''minecraft:badlands'')]"

definition sample_section :: "int \<Rightarrow> nbt" where
  "sample_section y =
     Compound [(''Y'', Byte y),
               (''biomes'', Compound [(''palette'', List [String ''terralith:yellowstone''])])]"

definition sample_section_no_y :: nbt where
  "sample_section_no_y =
     Compound [(''biomes'', Compound [(''palette'', List [String ''terralith:yellowstone''])])]"

definition sample_chunk :: nbt where
  "sample_chunk =
     Compound [(''sections'',
       List [sample_section 8, sample_section 4, sample_section_no_y])]"

definition chain_mapping :: "string \<rightharpoonup> string" where
  "chain_mapping = map_of [(''terralith:skylands_autumn'', ''terralith:skylands''),
                           (''terralith:skylands'', ''minecraft:stony_peaks'')]"

text \<open>
  A small region for evaluating the region worker and the rebuild. Three slots are present
  in its location table: slot 0 at sector 2 holds a chunk that the sample parser reads and
  the sample mapping changes; slot 1 points at sector 9, past the end of the file, so its
  blob cannot be extracted; slot 2 at sector 3 holds a chunk whose payload the sample parser
  rejects. Their timestamps are 7, 8 and 9. \<open>sample_updated\<close> is the \<open>updated_blobs\<close> map the
  worker builds from it, \<open>sample_pick\<close> the blob the rebuild loop settles on for each slot
  with the clock at 100, \<open>sample_rebuilt\<close> the rebuilt file and \<open>sample_outcome\<close> the result
  of the worker.
\<close>

definition sample_region :: bytes where
  "sample_region =
     [0, 0, 2, 1, 0, 0, 9, 1, 0, 0, 3, 1] @ replicate 4084 0
     @ [0, 0, 0, 7, 0, 0, 0, 8, 0, 0, 0, 9] @ replicate 4084 0
     @ [0, 0, 0, 2, 3, 1] @ replicate 4090 0
     @ [0, 0, 0, 2, 3, 9] @ replicate 4090 0"

definition sample_locs :: "(nat \<times> nat) list" where
  "sample_locs = [(2, 1), (9, 1), (3, 1)] @ replicate 1021 (0, 0)"

definition sample_updated :: "nat \<rightharpoonup> bytes \<times> bool" where
  "sample_updated = [0 \<mapsto> ([0, 0, 0, 2, 3, 2], True)]"

abbreviation (input) sample_pick :: "nat \<Rightarrow> (bytes \<times> nat) option" where
  "sample_pick \<equiv>
     pick_blob sample_region sample_updated 100 sample_locs (read_timestamps sample_region)"

definition sample_rebuilt :: bytes where
  "sample_rebuilt =
     [0, 0, 2, 1, 0, 0, 0, 0, 0, 0, 3, 1] @ replicate 4084 0
     @ [0, 0, 0, 100, 0, 0, 0, 0, 0, 0, 0, 9] @ replicate 4084 0
     @ [0, 0, 0, 2, 3, 2] @ replicate 4090 0
     @ [0, 0, 0, 2, 3, 9] @ replicate 4090 0"

definition sample_rebuilt_locs :: "(nat \<times> nat) list" where
  "sample_rebuilt_locs = [(2, 1), (0, 0), (3, 1)] @ replicate 1021 (0, 0)"

definition sample_outcome :: outcome where
  "sample_outcome =
     \<lparr>counters_of = \<lparr>processed = 2, changed = 1, entries_changed = 1, parse_errors = 1\<rparr>,
      new_region = Some sample_rebuilt, new_backup = Some sample_region\<rparr>"

section \<open>Envelope decoding\<close>

lemma slice_to_nonneg: "0 \<le> k \<Longrightarrow> slice_to xs k = take (nat k) xs"
  by (simp add: slice_to_def)

text \<open>
  C8. For every chunk blob of at least 5 bytes whose declared length \<open>L\<close> is at least 1
  (a chunk blob holds \<open>L - 1\<close> payload bytes, and extraction hands on no blob with a
  declared length of 0), with tag byte \<open>c\<close>: if \<open>L\<close> differs from \<open>len(payload) + 1\<close> the payload is
  truncated to \<open>L - 1\<close> bytes when \<open>L - 1 \<le> len(payload)\<close> and the call fails with a
  length-mismatch error otherwise; then the payload is decompressed with gzip when \<open>c = 1\<close>,
  with zlib when \<open>c = 2\<close>, returned unchanged when \<open>c = 3\<close>, and any other \<open>c\<close> fails with
  an unknown-compression error.
\<close>

theorem decompress_chunk_nbt_spec:
  assumes "5 \<le> length blob" and "1 \<le> from_bytes_big (take 4 blob)"
  shows "decompress_chunk_nbt lib blob = decompress_spec lib blob"
proof -
  let ?L = "from_bytes_big (take 4 blob)"
  have k: "slice_to (drop 5 blob) (int ?L - 1) = take (?L - 1) (drop 5 blob)"
    using assms(2) by (simp add: slice_to_nonneg nat_diff_distrib')
  have ne: "(int ?L \<noteq> int (length (drop 5 blob)) + 1) = (?L \<noteq> length (drop 5 blob) + 1)"
    by linarith
  show ?thesis
    using assms(1) unfolding decompress_chunk_nbt_def decompress_spec_def Let_def ne
    by (simp add: k del: length_drop)
qed

theorem decompress_chunk_nbt_spec_witness:
  "5 \<le> length [0, 0, 0, 2, 3, 170, 187 :: byte]
   \<and> 1 \<le> from_bytes_big (take 4 [0, 0, 0, 2, 3, 170, 187 :: byte])
   \<and> decompress_chunk_nbt sample_ext [0, 0, 0, 2, 3, 170, 187] = Inr [170]
   \<and> decompress_spec sample_ext [0, 0, 0, 2, 3, 170, 187] = Inr [170]"
proof -
  have a: "5 \<le> length [0, 0, 0, 2, 3, 170, 187 :: byte]" by simp
  have b: "1 \<le> from_bytes_big (take 4 [0, 0, 0, 2, 3, 170, 187 :: byte])"
    by (simp add: from_bytes_big_def)
  have c: "decompress_spec sample_ext [0, 0, 0, 2, 3, 170, 187] = Inr [170]"
    by (simp add: decompress_spec_def from_bytes_big_def)
  show ?thesis
    using a b c decompress_chunk_nbt_spec [OF a b, of sample_ext] by simp
qed

section \<open>The remap step\<close>

lemma add_changes_0 [simp]: "add_changes st 0 = st"
  by (simp add: add_changes_def)

lemma add_changes_add: "add_changes (add_changes st a) b = add_changes st (a + b)"
  by (auto simp: add_changes_def)

lemma startswithE:
  assumes "startswith s p"
  obtains t where "s = p @ t"
  using assms unfolding startswith_def by (metis append_take_drop_id)

lemma after_first_colon_minecraft:
  assumes "startswith s ''universal_minecraft:''"
  shows "after_first_colon s = drop 20 s"
proof -
  obtain t where "s = ''universal_minecraft:'' @ t"
    using assms by (rule startswithE)
  then show ?thesis by (simp add: after_first_colon_def)
qed

lemma after_first_colon_terralith:
  assumes "startswith s ''universal_terralith:''"
  shows "after_first_colon s = drop 20 s"
proof -
  obtain t where "s = ''universal_terralith:'' @ t"
    using assms by (rule startswithE)
  then show ?thesis by (simp add: after_first_colon_def)
qed

lemma normalize_biome_name_spec: "normalize_biome_name raw = normalize_spec raw"
  by (simp add: normalize_biome_name_def normalize_spec_def
      after_first_colon_minecraft after_first_colon_terralith)

lemma remap_entry_spec:
  assumes "[] \<notin> ran M" "F \<noteq> Some []" "remap_entry lib M F v st = Inr (v', st')"
  shows "v' = entry_spec lib M F v \<and>
         st' = add_changes st (if entry_changes lib M F v then 1 else 0)"
proof (cases "py_str lib v")
  case None
  then show ?thesis using assms(3)
    by (simp add: remap_entry_def entry_spec_def entry_changes_def)
next
  case (Some raw)
  have M: "\<And>k r. M k = Some r \<Longrightarrow> r \<noteq> []"
    using assms(1) by (auto simp: ran_def)
  show ?thesis
  proof (cases "M (normalize_spec raw)")
    case None
    then show ?thesis using Some assms(2,3)
      by (cases F; cases v)
         (auto simp: remap_entry_def entry_spec_def entry_changes_def overwrite_spec_def
            replacement_def normalize_biome_name_spec str_truthy_def add_changes_def Let_def
            split: if_splits)
  next
    case (Some r)
    then have "r \<noteq> []" using M by blast
    then show ?thesis using Some \<open>py_str lib v = Some raw\<close> assms(3)
      by (cases v)
         (auto simp: remap_entry_def entry_spec_def entry_changes_def overwrite_spec_def
            replacement_def normalize_biome_name_spec str_truthy_def add_changes_def Let_def
            split: if_splits)
  qed
qed

lemma remap_palette_spec:
  assumes "[] \<notin> ran M" "F \<noteq> Some []"
  shows "remap_palette lib M F pal st = Inr (pal', st') \<Longrightarrow>
         pal' = map (entry_spec lib M F) pal \<and>
         st' = add_changes st (palette_changes lib M F pal)"
proof (induction pal arbitrary: st pal' st')
  case Nil
  then show ?case by (simp add: palette_changes_def)
next
  case (Cons v vs)
  from Cons.prems obtain v1 st1 vs1 where
    e: "remap_entry lib M F v st = Inr (v1, st1)" and
    r: "remap_palette lib M F vs st1 = Inr (vs1, st')" and
    p: "pal' = v1 # vs1"
    by (auto split: sum.splits prod.splits)
  from remap_entry_spec [OF assms e] Cons.IH [OF r] p
  show ?case
    by (auto simp: palette_changes_def add_changes_add)
qed


lemma remap_yielded_count:
  assumes "[] \<notin> ran M" "F \<noteq> Some []"
  shows "remap_yielded lib M F sec ys st = Inr (sec', st') \<Longrightarrow>
         st' = add_changes st (sum_list (map (\<lambda>r. palette_changes lib M F (snd r)) ys))"
proof (induction ys arbitrary: sec st)
  case Nil
  then show ?case by simp
next
  case (Cons y ys)
  obtain loc pal where y: "y = (loc, pal)" by (cases y)
  from Cons.prems y obtain pal1 st1 where
    p: "remap_palette lib M F pal st = Inr (pal1, st1)" and
    r: "remap_yielded lib M F (put_palette sec loc pal1) ys st1 = Inr (sec', st')"
    by (auto split: sum.splits prod.splits)
  from remap_palette_spec [OF assms p] Cons.IH [OF r] y
  show ?case by (simp add: add_changes_add)
qed

lemma remap_section_count:
  assumes "[] \<notin> ran M" "F \<noteq> Some []"
    and "remap_section lib M y_min y_max F sec st = Inr (sec', st')"
  shows "st' = add_changes st (section_changes lib M y_min y_max F sec)"
proof (cases "y_filtered_out (section_y lib sec) y_min y_max")
  case True
  then show ?thesis using assms(3) by (simp add: remap_section_def remap_section_palettes_def section_changes_def)
next
  case False
  obtain ys raised where it: "iter_biome_palette_lists lib sec = (ys, raised)"
    by (cases "iter_biome_palette_lists lib sec")
  from assms(3) False it obtain s1 where
    "remap_yielded lib M F sec ys st = Inr (s1, st')"
    by (auto simp: remap_section_def remap_section_palettes_def split: sum.splits prod.splits option.splits)
  from remap_yielded_count [OF assms(1,2) this] False it
  show ?thesis by (simp add: section_changes_def)
qed

lemma remap_sections_count:
  assumes "[] \<notin> ran M" "F \<noteq> Some []"
  shows "remap_sections lib M y_min y_max F secs st = Inr (secs', st') \<Longrightarrow>
         st' = add_changes st (sum_list (map (section_changes lib M y_min y_max F) secs))"
proof (induction secs arbitrary: st secs')
  case Nil
  then show ?case by simp
next
  case (Cons s ss)
  from Cons.prems obtain s1 st1 ss1 where
    a: "remap_section lib M y_min y_max F s st = Inr (s1, st1)" and
    b: "remap_sections lib M y_min y_max F ss st1 = Inr (ss1, st')"
    by (auto split: sum.splits prod.splits)
  from remap_section_count [OF assms a] Cons.IH [OF b]
  show ?case by (simp add: add_changes_add)
qed

lemma remap_chunk_count:
  assumes "[] \<notin> ran M" "F \<noteq> Some []"
    and "remap_chunk_biome_palettes lib root M y_min y_max F = Inr (root', ch, n)"
  shows "ch = (0 < n) \<and> n = chunk_changes lib M y_min y_max F root"
proof (cases "get_sections root")
  case None
  then show ?thesis using assms(3)
    by (simp add: remap_chunk_biome_palettes_def chunk_changes_def)
next
  case (Some sections)
  show ?thesis
  proof (cases "\<exists>secs. sections = List secs")
    case False
    then show ?thesis using assms(3) Some
      by (cases sections)
         (auto simp: remap_chunk_biome_palettes_def chunk_changes_def
            split: sum.splits bool.splits)
  next
    case True
    then obtain secs where secs: "sections = List secs" by blast
    show ?thesis
    proof (cases "secs = []")
      case True
      then show ?thesis using assms(3) Some secs
        by (simp add: remap_chunk_biome_palettes_def chunk_changes_def)
    next
      case False
      with assms(3) Some secs obtain secs1 where
        "remap_sections lib M y_min y_max F secs (False, 0) = Inr (secs1, ch, n)"
        by (auto simp: remap_chunk_biome_palettes_def split: sum.splits)
      from remap_sections_count [OF assms(1,2) this] Some secs
      show ?thesis by (auto simp: add_changes_def chunk_changes_def)
    qed
  qed
qed

lemma remap_entry_string_returns:
  "\<exists>r. remap_entry lib M F (String s) st = Inr r"
  by (auto simp: remap_entry_def Let_def str_truthy_def split: option.splits)

lemma remap_palette_strings_return:
  "\<forall>v\<in>set pal. \<exists>s. v = String s \<Longrightarrow> \<exists>r. remap_palette lib M F pal st = Inr r"
proof (induction pal arbitrary: st)
  case Nil
  then show ?case by simp
next
  case (Cons v vs)
  then obtain s where v: "v = String s" by auto
  obtain v1 st1 where e: "remap_entry lib M F v st = Inr (v1, st1)"
    using remap_entry_string_returns [of lib M F s st] v by auto
  obtain r where "remap_palette lib M F vs st1 = Inr r"
    using Cons.IH [of st1] Cons.prems by auto
  with e show ?case by (cases r) simp
qed

lemma sample_mapping_ran: "[] \<notin> ran sample_mapping"
  by (auto simp: sample_mapping_def ran_def split: if_splits)

text \<open>
  C1. With a mapping \<open>M\<close> whose values are biome ids (none is the empty string) and a
  fallback \<open>F\<close> that is a biome id when it is set: a run of the remap over a palette
  replaces every entry that reads as a string by what the remap step of the specification
  gives for it (normalize, look up in \<open>M\<close>, fall back to \<open>F\<close> for an unmapped
  \<open>terralith:\<close> id, overwrite exactly when there is a replacement that differs from the
  normalized id), leaves every other entry as it is, and adds one to the count for each
  entry it overwrites; a palette of strings never makes it raise; and the function returns
  the pair of the flag "some entry changed" and the number of entries changed.
\<close>

theorem remap_step_spec:
  assumes "[] \<notin> ran M" and "F \<noteq> Some []"
  shows "(remap_palette lib M F pal st = Inr (pal', st') \<longrightarrow>
            pal' = map (entry_spec lib M F) pal \<and>
            st' = (fst st \<or> 0 < palette_changes lib M F pal,
                   snd st + palette_changes lib M F pal))
       \<and> ((\<forall>v\<in>set pal. \<exists>s. v = String s) \<longrightarrow> (\<exists>r. remap_palette lib M F pal st = Inr r))
       \<and> (remap_chunk_biome_palettes lib root M y_min y_max F = Inr (root', ch, n) \<longrightarrow>
            ch = (0 < n) \<and> n = chunk_changes lib M y_min y_max F root)"
  using remap_palette_spec [OF assms, of lib pal st pal' st']
    remap_palette_strings_return [of pal lib M F st]
    remap_chunk_count [OF assms, of lib root y_min y_max root' ch n]
  by (simp add: add_changes_def)

theorem remap_step_spec_witness:
  "[] \<notin> ran sample_mapping \<and> Some ''minecraft:plains'' \<noteq> Some []
   \<and> remap_palette sample_ext sample_mapping (Some ''minecraft:plains'')
        [String ''universal_terralith:yellowstone'', String ''minecraft:ocean'',
         String ''terralith:other'', IntTag 5] (False, 0)
      = Inr ([String ''minecraft:badlands'', String ''minecraft:ocean'',
              String ''minecraft:plains'', IntTag 5], True, 2)
   \<and> map (entry_spec sample_ext sample_mapping (Some ''minecraft:plains''))
        [String ''universal_terralith:yellowstone'', String ''minecraft:ocean'',
         String ''terralith:other'', IntTag 5]
      = [String ''minecraft:badlands'', String ''minecraft:ocean'',
         String ''minecraft:plains'', IntTag 5]
   \<and> palette_changes sample_ext sample_mapping (Some ''minecraft:plains'')
        [String ''universal_terralith:yellowstone'', String ''minecraft:ocean'',
         String ''terralith:other'', IntTag 5] = 2
   \<and> remap_chunk_biome_palettes sample_ext (sample_root ''terralith:yellowstone'')
        sample_mapping None None (Some ''minecraft:plains'')
      = Inr (sample_root ''minecraft:badlands'', True, 1)
   \<and> chunk_changes sample_ext sample_mapping None None (Some ''minecraft:plains'')
        (sample_root ''terralith:yellowstone'') = 1"
proof -
  let ?F = "Some ''minecraft:plains''"
  let ?pal = "[String ''universal_terralith:yellowstone'', String ''minecraft:ocean'',
               String ''terralith:other'', IntTag 5]"
  let ?pal' = "[String ''minecraft:badlands'', String ''minecraft:ocean'',
                String ''minecraft:plains'', IntTag 5]"
  have f: "?F \<noteq> Some []" by simp
  have p: "remap_palette sample_ext sample_mapping ?F ?pal (False, 0) = Inr (?pal', True, 2)"
    by (simp add: remap_entry_def sample_ext_def sample_mapping_def normalize_biome_name_def
        startswith_def after_first_colon_def str_truthy_def)
  have c: "remap_chunk_biome_palettes sample_ext (sample_root ''terralith:yellowstone'')
             sample_mapping None None ?F = Inr (sample_root ''minecraft:badlands'', True, 1)"
    by (simp add: remap_chunk_biome_palettes_def sample_root_def get_sections_def
        remap_section_def remap_section_palettes_def y_filtered_out_def section_y_def iter_biome_palette_lists_def iter_biomes_def iter_Biomes_def
        put_palette_def put_sections_def
        remap_entry_def sample_ext_def sample_mapping_def normalize_biome_name_def
        startswith_def after_first_colon_def str_truthy_def)
  from remap_step_spec [OF sample_mapping_ran f, of sample_ext ?pal "(False, 0)" ?pal' "(True, 2)"
      "sample_root ''terralith:yellowstone''" None None
      "sample_root ''minecraft:badlands''" True 1] p c
  have "?pal' = map (entry_spec sample_ext sample_mapping ?F) ?pal"
    and "2 = palette_changes sample_ext sample_mapping ?F ?pal"
    and "1 = chunk_changes sample_ext sample_mapping None None ?F
               (sample_root ''terralith:yellowstone'')"
    by simp_all
  with sample_mapping_ran f p c show ?thesis by simp
qed

section \<open>Palette iteration\<close>

text \<open>
  C2. A section whose \<open>biomes\<close> compound carries its palette at the key \<open>Palette\<close> yields
  nothing, while the same palette under \<open>Biomes\<close> and \<open>Palette\<close>, or under \<open>biomes\<close> and
  \<open>palette\<close>, is yielded: the branch for \<open>biomes\<close> reads the key \<open>palette\<close> only.
\<close>

theorem iter_biome_palette_lists_biomes_Palette:
  "iter_biome_palette_lists lib (Compound [(''biomes'', Compound [(''Palette'', List pal)])])
     = ([], None)
   \<and> iter_biome_palette_lists lib (Compound [(''Biomes'', Compound [(''Palette'', List pal)])])
     = ([((''Biomes'', ''Palette''), pal)], None)
   \<and> iter_biome_palette_lists lib (Compound [(''biomes'', Compound [(''palette'', List pal)])])
     = ([((''biomes'', ''palette''), pal)], None)"
  by (simp add: iter_biome_palette_lists_def iter_biomes_def iter_Biomes_def
      palette_or_Palette_def)

section \<open>Applying the remap twice\<close>

lemma remap_entry_writes:
  "remap_entry lib M F v st =
     (case py_str lib v of
        None \<Rightarrow> Inr (v, st)
      | Some raw \<Rightarrow>
          (case remap_writes M F raw of
             None \<Rightarrow> Inr (v, st)
           | Some n \<Rightarrow>
               (case v of String _ \<Rightarrow> Inr (String n, True, snd st + 1)
                | _ \<Rightarrow> Inl IncompatibleItemType)))"
  by (cases v)
     (auto simp: remap_entry_def remap_writes_def Let_def str_truthy_def
        split: option.splits)

lemma remap_entry_again:
  assumes ok: "\<forall>s. py_str lib (String s) = Some s"
    and fixed: "targets_fixed M F"
    and first: "remap_entry lib M F v st = Inr (v', st')"
  shows "remap_entry lib M F v' st2 = Inr (v', st2)"
proof (cases "py_str lib v")
  case None
  then show ?thesis using first by (simp add: remap_entry_writes)
next
  case (Some raw)
  show ?thesis
  proof (cases "remap_writes M F raw")
    case None
    then show ?thesis using first Some by (simp add: remap_entry_writes)
  next
    case (Some R)
    with first \<open>py_str lib v = Some raw\<close> have v': "v' = String R"
      by (cases v) (auto simp: remap_entry_writes)
    from fixed Some have "remap_writes M F R = None"
      unfolding targets_fixed_def by blast
    with v' ok show ?thesis by (simp add: remap_entry_writes)
  qed
qed

lemma remap_palette_length:
  "remap_palette lib M F pal st = Inr (pal', st') \<Longrightarrow> length pal' = length pal"
  by (induction pal arbitrary: st pal' st') (auto split: sum.splits prod.splits)

lemma remap_palette_again:
  assumes ok: "\<forall>s. py_str lib (String s) = Some s"
    and fixed: "targets_fixed M F"
  shows "remap_palette lib M F pal st = Inr (pal', st') \<Longrightarrow>
         remap_palette lib M F pal' st2 = Inr (pal', st2)"
proof (induction pal arbitrary: st pal' st')
  case Nil
  then show ?case by simp
next
  case (Cons v vs)
  from Cons.prems obtain v1 st1 vs1 where
    e: "remap_entry lib M F v st = Inr (v1, st1)" and
    r: "remap_palette lib M F vs st1 = Inr (vs1, st')" and
    p: "pal' = v1 # vs1"
    by (auto split: sum.splits prod.splits)
  from remap_entry_again [OF ok fixed e, of st2] Cons.IH [OF r] p
  show ?case by simp
qed


lemma as_compound_Some_iff: "as_compound x = Some kvs \<longleftrightarrow> x = Some (Compound kvs)"
  by (cases "(x)" rule: as_compound.cases) auto

lemma as_list_Some_iff: "as_list x = Some xs \<longleftrightarrow> x = Some (List xs)"
  by (cases "(x)" rule: as_list.cases) auto

lemma iter_biomes_cases:
  "iter_biomes kvs = [] \<or> (\<exists>p. iter_biomes kvs = [((''biomes'', ''palette''), p)])"
  by (simp add: iter_biomes_def split: option.splits)

lemma iter_biomes_SomeD:
  assumes "iter_biomes kvs = [(l, p)]"
  shows "l = (''biomes'', ''palette'') \<and>
         (\<exists>b. map_of kvs ''biomes'' = Some (Compound b) \<and> map_of b ''palette'' = Some (List p))"
  using assms
  by (auto simp: iter_biomes_def as_compound_Some_iff as_list_Some_iff split: option.splits)

lemma iter_Biomes_cases:
  "(\<exists>e. iter_Biomes lib kvs = ([], e)) \<or>
   (\<exists>k p. iter_Biomes lib kvs = ([((''Biomes'', k), p)], None))"
  by (auto simp: iter_Biomes_def split: option.splits sum.splits prod.splits)

lemma iter_Biomes_SomeD:
  assumes "iter_Biomes lib kvs = ([(l, p)], e)"
  shows "e = None \<and> (\<exists>k b. l = (''Biomes'', k) \<and> map_of kvs ''Biomes'' = Some (Compound b) \<and>
           palette_or_Palette lib b = Inr (k, Some (List p)))"
  using assms
  by (auto simp: iter_Biomes_def as_compound_Some_iff as_list_Some_iff
      split: option.splits sum.splits prod.splits)

lemma palette_or_Palette_update:
  assumes "palette_or_Palette lib b = Inr (k, Some (List p))" and "length q = length p"
  shows "palette_or_Palette lib (AList.update k (List q) b) = Inr (k, Some (List q))"
proof (cases "map_of b ''palette''")
  case None
  with assms(1) have k: "k = ''Palette''" by (simp add: palette_or_Palette_def)
  with None show ?thesis by (simp add: palette_or_Palette_def update_conv')
next
  case (Some x)
  show ?thesis
  proof (cases "truthy lib x")
    case (Inl e)
    with Some assms(1) show ?thesis by (simp add: palette_or_Palette_def)
  next
    case (Inr t)
    show ?thesis
    proof (cases t)
      case True
      with Some Inr assms(1) have k: "k = ''palette''" and x: "x = List p"
        by (simp_all add: palette_or_Palette_def)
      with Inr True have "p \<noteq> []" by simp
      with assms(2) have "q \<noteq> []" by auto
      with k show ?thesis by (simp add: palette_or_Palette_def update_conv')
    next
      case False
      with Some Inr assms(1) have k: "k = ''Palette''"
        by (simp add: palette_or_Palette_def)
      with Some Inr False show ?thesis by (simp add: palette_or_Palette_def update_conv')
    qed
  qed
qed

lemma palette_or_Palette_triv:
  assumes "palette_or_Palette lib b = Inr (k, Some v)"
  shows "map_of b k = Some v"
  using assms
  by (auto simp: palette_or_Palette_def split: option.splits sum.splits if_splits)

lemma put_biomes:
  assumes "iter_biomes kvs = [(l, p)]"
  shows "\<exists>kvs'. put_palette (Compound kvs) l q = Compound kvs' \<and>
           iter_biomes kvs' = [(l, q)] \<and> iter_Biomes lib kvs' = iter_Biomes lib kvs \<and>
           map_of kvs' ''Y'' = map_of kvs ''Y''"
proof -
  from iter_biomes_SomeD [OF assms] obtain b where
    l: "l = (''biomes'', ''palette'')" and
    b: "map_of kvs ''biomes'' = Some (Compound b)" by auto
  let ?kvs' = "AList.update ''biomes'' (Compound (AList.update ''palette'' (List q) b)) kvs"
  have "put_palette (Compound kvs) l q = Compound ?kvs'"
    using l b by (simp add: put_palette_def)
  moreover have "iter_biomes ?kvs' = [(l, q)]"
    using l by (simp add: iter_biomes_def update_conv')
  moreover have "iter_Biomes lib ?kvs' = iter_Biomes lib kvs"
    by (simp add: iter_Biomes_def update_conv')
  moreover have "map_of ?kvs' ''Y'' = map_of kvs ''Y''"
    by (simp add: update_conv')
  ultimately show ?thesis by blast
qed

lemma put_Biomes:
  assumes "iter_Biomes lib kvs = ([(l, p)], e)" and "length q = length p"
  shows "\<exists>kvs'. put_palette (Compound kvs) l q = Compound kvs' \<and>
           iter_Biomes lib kvs' = ([(l, q)], None) \<and> iter_biomes kvs' = iter_biomes kvs \<and>
           map_of kvs' ''Y'' = map_of kvs ''Y''"
proof -
  from iter_Biomes_SomeD [OF assms(1)] obtain k b where
    l: "l = (''Biomes'', k)" and
    b: "map_of kvs ''Biomes'' = Some (Compound b)" and
    pp: "palette_or_Palette lib b = Inr (k, Some (List p))" by auto
  let ?kvs' = "AList.update ''Biomes'' (Compound (AList.update k (List q) b)) kvs"
  have "put_palette (Compound kvs) l q = Compound ?kvs'"
    using l b by (simp add: put_palette_def)
  moreover have "iter_Biomes lib ?kvs' = ([(l, q)], None)"
    using l palette_or_Palette_update [OF pp assms(2)]
    by (simp add: iter_Biomes_def update_conv')
  moreover have "iter_biomes ?kvs' = iter_biomes kvs"
    by (simp add: iter_biomes_def update_conv')
  moreover have "map_of ?kvs' ''Y'' = map_of kvs ''Y''"
    by (simp add: update_conv')
  ultimately show ?thesis by blast
qed

lemma put_biomes_same:
  assumes "iter_biomes kvs = [(l, p)]"
  shows "put_palette (Compound kvs) l p = Compound kvs"
proof -
  from iter_biomes_SomeD [OF assms] obtain b where
    l: "l = (''biomes'', ''palette'')" and
    b: "map_of kvs ''biomes'' = Some (Compound b)" and
    p: "map_of b ''palette'' = Some (List p)" by auto
  show ?thesis using l b p by (simp add: put_palette_def update_triv)
qed

lemma put_Biomes_same:
  assumes "iter_Biomes lib kvs = ([(l, p)], e)"
  shows "put_palette (Compound kvs) l p = Compound kvs"
proof -
  from iter_Biomes_SomeD [OF assms(1)] obtain k b where
    l: "l = (''Biomes'', k)" and
    b: "map_of kvs ''Biomes'' = Some (Compound b)" and
    pp: "palette_or_Palette lib b = Inr (k, Some (List p))" by auto
  from palette_or_Palette_triv [OF pp] l b
  show ?thesis by (simp add: put_palette_def update_triv)
qed


lemma remap_yielded_append:
  "remap_yielded lib M F sec (xs @ ys) st =
     (case remap_yielded lib M F sec xs st of
        Inl e \<Rightarrow> Inl e
      | Inr (sec1, st1) \<Rightarrow> remap_yielded lib M F sec1 ys st1)"
proof (induction xs arbitrary: sec st)
  case Nil
  then show ?case by simp
next
  case (Cons x xs)
  obtain l p where "x = (l, p)" by (cases x)
  with Cons show ?case by (simp split: sum.splits prod.splits)
qed

lemma yielded_fixed_biomes:
  assumes "\<forall>r\<in>set (iter_biomes kvs). palette_fixed lib M F (snd r)"
  shows "remap_yielded lib M F (Compound kvs) (iter_biomes kvs) st = Inr (Compound kvs, st)"
proof -
  from iter_biomes_cases [of kvs] show ?thesis
  proof
    assume "iter_biomes kvs = []"
    then show ?thesis by simp
  next
    assume "\<exists>p. iter_biomes kvs = [((''biomes'', ''palette''), p)]"
    then obtain p where p: "iter_biomes kvs = [((''biomes'', ''palette''), p)]" by blast
    with assms have "palette_fixed lib M F p" by simp
    then have "remap_palette lib M F p st = Inr (p, st)"
      unfolding palette_fixed_def by blast
    with p put_biomes_same [OF p] show ?thesis by simp
  qed
qed

lemma yielded_fixed_Biomes:
  assumes "iter_Biomes lib kvs = (ys, e)"
    and "\<forall>r\<in>set ys. palette_fixed lib M F (snd r)"
  shows "remap_yielded lib M F (Compound kvs) ys st = Inr (Compound kvs, st)"
proof -
  from iter_Biomes_cases [of lib kvs] show ?thesis
  proof
    assume "\<exists>e. iter_Biomes lib kvs = ([], e)"
    with assms(1) show ?thesis by auto
  next
    assume "\<exists>k p. iter_Biomes lib kvs = ([((''Biomes'', k), p)], None)"
    then obtain k p where p: "iter_Biomes lib kvs = ([((''Biomes'', k), p)], None)" by blast
    with assms have ys: "ys = [((''Biomes'', k), p)]" and "palette_fixed lib M F p"
      by auto
    then have "remap_palette lib M F p st = Inr (p, st)"
      unfolding palette_fixed_def by blast
    with ys put_Biomes_same [OF p] show ?thesis by simp
  qed
qed

lemma step_biomes:
  assumes ok: "\<forall>s. py_str lib (String s) = Some s"
    and fixed: "targets_fixed M F"
    and first: "remap_yielded lib M F (Compound kvs) (iter_biomes kvs) st = Inr (s1, st1)"
  shows "\<exists>kvs1. s1 = Compound kvs1 \<and> map_of kvs1 ''Y'' = map_of kvs ''Y'' \<and>
           iter_Biomes lib kvs1 = iter_Biomes lib kvs \<and>
           (\<forall>r\<in>set (iter_biomes kvs1). palette_fixed lib M F (snd r))"
proof -
  from iter_biomes_cases [of kvs] show ?thesis
  proof
    assume "iter_biomes kvs = []"
    with first show ?thesis by auto
  next
    assume "\<exists>p. iter_biomes kvs = [((''biomes'', ''palette''), p)]"
    then obtain p where p: "iter_biomes kvs = [((''biomes'', ''palette''), p)]" by blast
    with first obtain q where
      q: "remap_palette lib M F p st = Inr (q, st1)" and
      s1: "s1 = put_palette (Compound kvs) (''biomes'', ''palette'') q"
      by (auto split: sum.splits prod.splits)
    from put_biomes [OF p, of q lib] s1 obtain kvs1 where
      "s1 = Compound kvs1" "iter_biomes kvs1 = [((''biomes'', ''palette''), q)]"
      "iter_Biomes lib kvs1 = iter_Biomes lib kvs" "map_of kvs1 ''Y'' = map_of kvs ''Y''"
      by auto
    moreover have "palette_fixed lib M F q"
      unfolding palette_fixed_def using remap_palette_again [OF ok fixed q] by blast
    ultimately show ?thesis by simp
  qed
qed

lemma step_Biomes:
  assumes ok: "\<forall>s. py_str lib (String s) = Some s"
    and fixed: "targets_fixed M F"
    and it: "iter_Biomes lib kvs = (ys, e)"
    and first: "remap_yielded lib M F (Compound kvs) ys st = Inr (s2, st2)"
  shows "\<exists>kvs2 ys'. s2 = Compound kvs2 \<and> map_of kvs2 ''Y'' = map_of kvs ''Y'' \<and>
           iter_biomes kvs2 = iter_biomes kvs \<and> iter_Biomes lib kvs2 = (ys', e) \<and>
           (\<forall>r\<in>set ys'. palette_fixed lib M F (snd r))"
proof -
  from iter_Biomes_cases [of lib kvs] show ?thesis
  proof
    assume "\<exists>e. iter_Biomes lib kvs = ([], e)"
    with it first show ?thesis by auto
  next
    assume "\<exists>k p. iter_Biomes lib kvs = ([((''Biomes'', k), p)], None)"
    then obtain k p where p: "iter_Biomes lib kvs = ([((''Biomes'', k), p)], None)" by blast
    with it have ys: "ys = [((''Biomes'', k), p)]" and e: "e = None" by simp_all
    with first obtain q where
      q: "remap_palette lib M F p st = Inr (q, st2)" and
      s2: "s2 = put_palette (Compound kvs) (''Biomes'', k) q"
      by (auto split: sum.splits prod.splits)
    from remap_palette_length [OF q] have len: "length q = length p" .
    from put_Biomes [OF p len] s2 obtain kvs2 where
      "s2 = Compound kvs2" "iter_Biomes lib kvs2 = ([((''Biomes'', k), q)], None)"
      "iter_biomes kvs2 = iter_biomes kvs" "map_of kvs2 ''Y'' = map_of kvs ''Y''"
      by auto
    moreover have "palette_fixed lib M F q"
      unfolding palette_fixed_def using remap_palette_again [OF ok fixed q] by blast
    ultimately show ?thesis using e by simp
  qed
qed

lemma remap_section_again:
  assumes ok: "\<forall>s. py_str lib (String s) = Some s"
    and fixed: "targets_fixed M F"
    and first: "remap_section lib M y_min y_max F sec st = Inr (sec', st')"
  shows "remap_section lib M y_min y_max F sec' st2 = Inr (sec', st2)"
proof (cases "y_filtered_out (section_y lib sec) y_min y_max")
  case True
  with first have "sec' = sec" by (simp add: remap_section_def remap_section_palettes_def)
  with True show ?thesis by (simp add: remap_section_def remap_section_palettes_def)
next
  case False
  show ?thesis
  proof (cases "as_compound (Some sec)")
    case None
    with first False have "sec' = sec"
      by (simp add: remap_section_def remap_section_palettes_def iter_biome_palette_lists_def)
    with None False show ?thesis
      by (simp add: remap_section_def remap_section_palettes_def iter_biome_palette_lists_def)
  next
    case (Some kvs)
    then have sec: "sec = Compound kvs" by (simp add: as_compound_Some_iff)
    obtain ys e where it: "iter_Biomes lib kvs = (ys, e)" by (cases "iter_Biomes lib kvs")
    from first False sec it have
      y: "remap_yielded lib M F (Compound kvs) (iter_biomes kvs @ ys) st = Inr (sec', st')"
      and e: "e = None"
      by (auto simp: remap_section_def remap_section_palettes_def iter_biome_palette_lists_def
          split: sum.splits prod.splits option.splits)
    from y obtain s1 st1 where
      a: "remap_yielded lib M F (Compound kvs) (iter_biomes kvs) st = Inr (s1, st1)" and
      b: "remap_yielded lib M F s1 ys st1 = Inr (sec', st')"
      by (auto simp: remap_yielded_append split: sum.splits prod.splits)
    from step_biomes [OF ok fixed a] obtain kvs1 where
      s1: "s1 = Compound kvs1" and y1: "map_of kvs1 ''Y'' = map_of kvs ''Y''" and
      it1: "iter_Biomes lib kvs1 = (ys, e)" and
      f1: "\<forall>r\<in>set (iter_biomes kvs1). palette_fixed lib M F (snd r)"
      using it by auto
    from step_Biomes [OF ok fixed it1 b [unfolded s1]] obtain kvs2 ys' where
      s2: "sec' = Compound kvs2" and y2: "map_of kvs2 ''Y'' = map_of kvs1 ''Y''" and
      ib: "iter_biomes kvs2 = iter_biomes kvs1" and
      it2: "iter_Biomes lib kvs2 = (ys', e)" and
      f2: "\<forall>r\<in>set ys'. palette_fixed lib M F (snd r)"
      by auto
    have sy: "section_y lib sec' = section_y lib sec"
      using s2 sec y1 y2 by (simp add: section_y_def)
    have f1': "\<forall>r\<in>set (iter_biomes kvs2). palette_fixed lib M F (snd r)"
      using f1 ib by simp
    have "remap_yielded lib M F (Compound kvs2) (iter_biomes kvs2 @ ys') st2
            = Inr (Compound kvs2, st2)"
      using yielded_fixed_biomes [OF f1'] yielded_fixed_Biomes [OF it2 f2]
      by (simp add: remap_yielded_append)
    with sy False s2 it2 e show ?thesis
      by (simp add: remap_section_def remap_section_palettes_def iter_biome_palette_lists_def)
  qed
qed

lemma remap_sections_again:
  assumes ok: "\<forall>s. py_str lib (String s) = Some s"
    and fixed: "targets_fixed M F"
  shows "remap_sections lib M y_min y_max F secs st = Inr (secs', st') \<Longrightarrow>
         remap_sections lib M y_min y_max F secs' st2 = Inr (secs', st2) \<and>
         length secs' = length secs"
proof (induction secs arbitrary: st secs')
  case Nil
  then show ?case by simp
next
  case (Cons s ss)
  from Cons.prems obtain s1 st1 ss1 where
    a: "remap_section lib M y_min y_max F s st = Inr (s1, st1)" and
    b: "remap_sections lib M y_min y_max F ss st1 = Inr (ss1, st')" and
    c: "secs' = s1 # ss1"
    by (auto split: sum.splits prod.splits)
  from remap_section_again [OF ok fixed a, of st2] Cons.IH [OF b] c
  show ?case by simp
qed

lemma get_put_sections:
  assumes "get_sections root = Some v"
  shows "get_sections (put_sections root w) = Some w"
  using assms
  by (auto simp: get_sections_def put_sections_def update_conv' as_compound_Some_iff
      split: option.splits)

lemma put_sections_same:
  assumes "get_sections root = Some v"
  shows "put_sections root v = root"
  using assms
  by (auto simp: get_sections_def put_sections_def update_triv as_compound_Some_iff
      split: option.splits)

text \<open>
  C5 (amended). Let \<open>str\<close> of a string tag be its text, and let the mapping \<open>M\<close> and the
  fallback \<open>F\<close> be such that no id the remap step can store (a value of \<open>M\<close>, or \<open>F\<close>) is
  itself replaced by the step. Then for any chunk root on which the palette remap returns,
  applying it a second time to the edited root returns too, leaves every palette as the
  first application left it, and reports no change and zero entries changed.
\<close>

theorem remap_idempotent:
  assumes ok: "\<forall>s. py_str lib (String s) = Some s"
    and fixed: "targets_fixed M F"
    and first: "remap_chunk_biome_palettes lib root M y_min y_max F = Inr (root1, ch, n)"
  shows "remap_chunk_biome_palettes lib root1 M y_min y_max F = Inr (root1, False, 0)"
proof (cases "\<exists>secs. secs \<noteq> [] \<and> get_sections root = Some (List secs)")
  case False
  then have "remap_chunk_biome_palettes lib root M y_min y_max F = Inr (root, False, 0)
      \<or> (\<exists>e. remap_chunk_biome_palettes lib root M y_min y_max F = Inl e)"
    by (cases "get_sections root"; cases "the (get_sections root)")
       (auto simp: remap_chunk_biome_palettes_def split: sum.splits bool.splits)
  with first show ?thesis by auto
next
  case True
  then obtain secs where ne: "secs \<noteq> []" and g: "get_sections root = Some (List secs)"
    by blast
  with first obtain secs1 where
    r: "remap_sections lib M y_min y_max F secs (False, 0) = Inr (secs1, ch, n)" and
    root1: "root1 = put_sections root (List secs1)"
    by (auto simp: remap_chunk_biome_palettes_def split: sum.splits prod.splits)
  from remap_sections_again [OF ok fixed r, of "(False, 0)"] have
    again: "remap_sections lib M y_min y_max F secs1 (False, 0) = Inr (secs1, False, 0)" and
    len: "length secs1 = length secs" by simp_all
  from len ne have ne1: "secs1 \<noteq> []" by auto
  have g1: "get_sections root1 = Some (List secs1)"
    using get_put_sections [OF g] root1 by simp
  from put_sections_same [OF g1] again ne1 g1 show ?thesis
    by (simp add: remap_chunk_biome_palettes_def)
qed

lemma sample_ext_str: "\<forall>s. py_str sample_ext (String s) = Some s"
  by (simp add: sample_ext_def)

lemma sample_mapping_fixed: "targets_fixed sample_mapping None"
  unfolding targets_fixed_def remap_writes_def Let_def sample_mapping_def str_truthy_def
  by (auto simp: normalize_biome_name_def startswith_def split: if_splits)

theorem remap_idempotent_witness:
  "(\<forall>s. py_str sample_ext (String s) = Some s) \<and> targets_fixed sample_mapping None
   \<and> remap_chunk_biome_palettes sample_ext (sample_root ''terralith:yellowstone'')
        sample_mapping None None None = Inr (sample_root ''minecraft:badlands'', True, 1)
   \<and> remap_chunk_biome_palettes sample_ext (sample_root ''minecraft:badlands'')
        sample_mapping None None None = Inr (sample_root ''minecraft:badlands'', False, 0)"
proof -
  have c: "remap_chunk_biome_palettes sample_ext (sample_root ''terralith:yellowstone'')
             sample_mapping None None None = Inr (sample_root ''minecraft:badlands'', True, 1)"
    by (simp add: remap_chunk_biome_palettes_def sample_root_def get_sections_def
        remap_section_def remap_section_palettes_def y_filtered_out_def section_y_def iter_biome_palette_lists_def
        iter_biomes_def iter_Biomes_def put_palette_def put_sections_def
        remap_entry_def sample_ext_def sample_mapping_def normalize_biome_name_def
        startswith_def after_first_colon_def str_truthy_def)
  from remap_idempotent [OF sample_ext_str sample_mapping_fixed c] sample_ext_str
    sample_mapping_fixed c
  show ?thesis by simp
qed

text \<open>
  With a mapping that sends \<open>terralith:skylands_autumn\<close> to \<open>terralith:skylands\<close> and
  \<open>terralith:skylands\<close> to \<open>minecraft:stony_peaks\<close>, the first application changes the
  palette entry to \<open>terralith:skylands\<close> and the second application changes it again.
\<close>

theorem remap_twice_counterexample:
  "remap_chunk_biome_palettes sample_ext (sample_root ''terralith:skylands_autumn'')
     chain_mapping None None None = Inr (sample_root ''terralith:skylands'', True, 1)
   \<and> remap_chunk_biome_palettes sample_ext (sample_root ''terralith:skylands'')
     chain_mapping None None None = Inr (sample_root ''minecraft:stony_peaks'', True, 1)"
  by (simp add: remap_chunk_biome_palettes_def sample_root_def get_sections_def
        remap_section_def remap_section_palettes_def y_filtered_out_def section_y_def iter_biome_palette_lists_def
        iter_biomes_def iter_Biomes_def put_palette_def put_sections_def
        remap_entry_def sample_ext_def chain_mapping_def normalize_biome_name_def
        startswith_def after_first_colon_def str_truthy_def)

section \<open>The Y filter\<close>

lemma y_filtered_out_overlap:
  assumes "lo \<le> hi"
  shows "y_filtered_out (Some sy) (Some lo) (Some hi)
           = ({sy * 16 .. sy * 16 + 15} \<inter> {lo .. hi} = {})"
  using assms by (auto simp: y_filtered_out_def Let_def)

lemma y_filtered_out_unbounded:
  "sy = None \<or> y_min = None \<or> y_max = None \<Longrightarrow> y_filtered_out sy y_min y_max = False"
  by (auto simp: y_filtered_out_def split: option.splits)

text \<open>One pass of the body of the section loop, in the words of the filter.\<close>

lemma remap_section_filter:
  assumes "remap_section lib M y_min y_max F sec st = Inr (sec', st')"
  shows "(\<forall>sy lo hi. section_y lib sec = Some sy \<and> y_min = Some lo \<and> y_max = Some hi
                     \<and> lo \<le> hi \<longrightarrow>
            (if {sy * 16 .. sy * 16 + 15} \<inter> {lo .. hi} \<noteq> {}
             then remap_section_palettes lib M F sec st = Inr (sec', st')
             else sec' = sec \<and> st' = st))
       \<and> (section_y lib sec = None \<or> y_min = None \<or> y_max = None \<longrightarrow>
            remap_section_palettes lib M F sec st = Inr (sec', st'))"
proof (intro conjI allI impI)
  fix sy lo hi
  assume a: "section_y lib sec = Some sy \<and> y_min = Some lo \<and> y_max = Some hi \<and> lo \<le> hi"
  define ov where "ov = ({sy * 16 .. sy * 16 + 15} \<inter> {lo .. hi} \<noteq> {})"
  from a have "y_filtered_out (section_y lib sec) y_min y_max
               = ({sy * 16 .. sy * 16 + 15} \<inter> {lo .. hi} = {})"
    using y_filtered_out_overlap [of lo hi sy] by simp
  then have f: "y_filtered_out (section_y lib sec) y_min y_max = (\<not> ov)"
    unfolding ov_def not_not .
  have "if ov then remap_section_palettes lib M F sec st = Inr (sec', st')
        else sec' = sec \<and> st' = st"
    using assms f by (cases ov) (auto simp: remap_section_def)
  then show "if {sy * 16 .. sy * 16 + 15} \<inter> {lo .. hi} \<noteq> {}
         then remap_section_palettes lib M F sec st = Inr (sec', st')
         else sec' = sec \<and> st' = st"
    unfolding ov_def .
next
  assume "section_y lib sec = None \<or> y_min = None \<or> y_max = None"
  then have "y_filtered_out (section_y lib sec) y_min y_max = False"
    by (rule y_filtered_out_unbounded)
  with assms show "remap_section_palettes lib M F sec st = Inr (sec', st')"
    by (simp add: remap_section_def)
qed

text \<open>
  The loop over the sections, unrolled: the list \<open>sts\<close> holds the two counters before the
  first section, between consecutive sections and after the last one.
\<close>

lemma remap_sections_trace:
  "remap_sections lib M y_min y_max F secs st = Inr (secs', st') \<Longrightarrow>
   \<exists>sts. length secs' = length secs \<and> length sts = length secs + 1
      \<and> sts ! 0 = st \<and> sts ! length secs = st'
      \<and> (\<forall>i<length secs. remap_section lib M y_min y_max F (secs ! i) (sts ! i)
                             = Inr (secs' ! i, sts ! Suc i))"
proof (induction secs arbitrary: st secs')
  case Nil
  then have "secs' = []" "st' = st" by simp_all
  then show ?case by (intro exI [of _ "[st]"]) simp
next
  case (Cons s ss)
  from Cons.prems obtain s1 st1 ss1 where
    a: "remap_section lib M y_min y_max F s st = Inr (s1, st1)" and
    b: "remap_sections lib M y_min y_max F ss st1 = Inr (ss1, st')" and
    c: "secs' = s1 # ss1"
    by (auto split: sum.splits prod.splits)
  from Cons.IH [OF b] obtain sts where
    l: "length ss1 = length ss" "length sts = length ss + 1" and
    h: "sts ! 0 = st1" and e: "sts ! length ss = st'" and
    every: "\<forall>i<length ss. remap_section lib M y_min y_max F (ss ! i) (sts ! i)
                             = Inr (ss1 ! i, sts ! Suc i)"
    by blast
  have "\<forall>i<length (s # ss). remap_section lib M y_min y_max F ((s # ss) ! i) ((st # sts) ! i)
                             = Inr (secs' ! i, (st # sts) ! Suc i)"
  proof (intro allI impI)
    fix i assume i: "i < length (s # ss)"
    show "remap_section lib M y_min y_max F ((s # ss) ! i) ((st # sts) ! i)
            = Inr (secs' ! i, (st # sts) ! Suc i)"
    proof (cases i)
      case 0
      then show ?thesis using a h c by simp
    next
      case (Suc j)
      then show ?thesis using every i c by simp
    qed
  qed
  with l h e c show ?case
    by (intro exI [of _ "st # sts"]) simp
qed

lemma sample_chunk_sections:
  "get_sections sample_chunk
     = Some (List [sample_section 8, sample_section 4, sample_section_no_y])"
  by (simp add: sample_chunk_def get_sections_def)

lemma sample_sections_y:
  "section_y sample_ext (sample_section y) = Some y"
  "section_y sample_ext sample_section_no_y = None"
  by (simp_all add: section_y_def sample_section_def sample_section_no_y_def sample_ext_def)

lemma sample_section_palettes:
  "remap_section_palettes sample_ext sample_mapping None (sample_section y) (b, k)
     = Inr (Compound [(''Y'', Byte y),
               (''biomes'', Compound [(''palette'', List [String ''minecraft:badlands''])])],
            True, Suc k)"
  "remap_section_palettes sample_ext sample_mapping None sample_section_no_y (b, k)
     = Inr (Compound [(''biomes'', Compound [(''palette'', List [String ''minecraft:badlands''])])],
            True, Suc k)"
  by (simp_all add: remap_section_palettes_def iter_biome_palette_lists_def iter_biomes_def
        iter_Biomes_def put_palette_def sample_section_def sample_section_no_y_def
        remap_entry_def sample_ext_def sample_mapping_def normalize_biome_name_def
        startswith_def after_first_colon_def str_truthy_def)

lemma sample_chunk_filtered:
  "remap_chunk_biome_palettes sample_ext sample_chunk sample_mapping (Some 100) (Some 200) None
     = Inr (Compound [(''sections'', List [
              Compound [(''Y'', Byte 8),
                (''biomes'', Compound [(''palette'', List [String ''minecraft:badlands''])])],
              sample_section 4,
              Compound [(''biomes'',
                Compound [(''palette'', List [String ''minecraft:badlands''])])]])],
            True, 2)"
  by (simp add: remap_chunk_biome_palettes_def sample_chunk_sections remap_section_def
        sample_sections_y y_filtered_out_def sample_section_palettes)
     (simp add: sample_chunk_def put_sections_def)

lemma sample_chunk_unbounded:
  "remap_chunk_biome_palettes sample_ext sample_chunk sample_mapping None (Some 200) None
     = Inr (Compound [(''sections'', List [
              Compound [(''Y'', Byte 8),
                (''biomes'', Compound [(''palette'', List [String ''minecraft:badlands''])])],
              Compound [(''Y'', Byte 4),
                (''biomes'', Compound [(''palette'', List [String ''minecraft:badlands''])])],
              Compound [(''biomes'',
                Compound [(''palette'', List [String ''minecraft:badlands''])])]])],
            True, 3)"
  by (simp add: remap_chunk_biome_palettes_def sample_chunk_sections remap_section_def
        sample_sections_y y_filtered_out_def sample_section_palettes)
     (simp add: sample_chunk_def put_sections_def)

text \<open>
  C9. Take a chunk whose sections are a list and a call of the palette remap on it that
  returns. The sections of the edited chunk are a list of the same length, and the call
  goes through the sections in order, carrying the two counters from \<open>(False, 0)\<close> to the
  pair it returns. When both \<open>y_min\<close> and \<open>y_max\<close> are given (with \<open>y_min \<le> y_max\<close>, as the
  caller passes them), a section whose \<open>Y\<close> reads as the integer \<open>sy\<close> has the loop over its
  biome palettes run on it when the interval \<open>[sy * 16, sy * 16 + 15]\<close> overlaps
  \<open>[y_min, y_max]\<close>, and when it does not the section stays as it is and the counters stay
  as they are. A section without a readable \<open>Y\<close> always has the loop run on it, and when one
  of the two bounds is missing every section has.
\<close>

theorem y_filter_spec:
  assumes run: "remap_chunk_biome_palettes lib root M y_min y_max F = Inr (root', ch, n)"
    and secs: "get_sections root = Some (List secs)"
  shows "\<exists>secs' sts. get_sections root' = Some (List secs')
      \<and> root' = put_sections root (List secs')
      \<and> length secs' = length secs \<and> length sts = length secs + 1
      \<and> sts ! 0 = (False, 0) \<and> sts ! length secs = (ch, n)
      \<and> (\<forall>i<length secs.
            (\<forall>sy lo hi. section_y lib (secs ! i) = Some sy \<and> y_min = Some lo
                         \<and> y_max = Some hi \<and> lo \<le> hi \<longrightarrow>
               (if {sy * 16 .. sy * 16 + 15} \<inter> {lo .. hi} \<noteq> {}
                then remap_section_palettes lib M F (secs ! i) (sts ! i)
                       = Inr (secs' ! i, sts ! Suc i)
                else secs' ! i = secs ! i \<and> sts ! Suc i = sts ! i))
          \<and> (section_y lib (secs ! i) = None \<or> y_min = None \<or> y_max = None \<longrightarrow>
               remap_section_palettes lib M F (secs ! i) (sts ! i)
                 = Inr (secs' ! i, sts ! Suc i)))"
proof (cases "secs = []")
  case True
  with run secs have r: "root' = root" "ch = False" "n = 0"
    by (simp_all add: remap_chunk_biome_palettes_def)
  show ?thesis
    using True r secs put_sections_same [OF secs]
    by (intro exI [of _ "[]"] exI [of _ "[(False, 0)]"]) simp
next
  case False
  with run secs obtain secs1 where
    r: "remap_sections lib M y_min y_max F secs (False, 0) = Inr (secs1, ch, n)" and
    root': "root' = put_sections root (List secs1)"
    by (auto simp: remap_chunk_biome_palettes_def split: sum.splits prod.splits)
  from remap_sections_trace [OF r] obtain sts where
    l: "length secs1 = length secs" "length sts = length secs + 1" and
    h: "sts ! 0 = (False, 0)" and e: "sts ! length secs = (ch, n)" and
    every: "\<forall>i<length secs. remap_section lib M y_min y_max F (secs ! i) (sts ! i)
                               = Inr (secs1 ! i, sts ! Suc i)"
    by blast
  have g: "get_sections root' = Some (List secs1)"
    using get_put_sections [OF secs] root' by simp
  have "\<forall>i<length secs.
            (\<forall>sy lo hi. section_y lib (secs ! i) = Some sy \<and> y_min = Some lo
                         \<and> y_max = Some hi \<and> lo \<le> hi \<longrightarrow>
               (if {sy * 16 .. sy * 16 + 15} \<inter> {lo .. hi} \<noteq> {}
                then remap_section_palettes lib M F (secs ! i) (sts ! i)
                       = Inr (secs1 ! i, sts ! Suc i)
                else secs1 ! i = secs ! i \<and> sts ! Suc i = sts ! i))
          \<and> (section_y lib (secs ! i) = None \<or> y_min = None \<or> y_max = None \<longrightarrow>
               remap_section_palettes lib M F (secs ! i) (sts ! i)
                 = Inr (secs1 ! i, sts ! Suc i))"
  proof (intro allI impI)
    fix i assume "i < length secs"
    with every have "remap_section lib M y_min y_max F (secs ! i) (sts ! i)
                       = Inr (secs1 ! i, sts ! Suc i)" by blast
    then show "(\<forall>sy lo hi. section_y lib (secs ! i) = Some sy \<and> y_min = Some lo
                         \<and> y_max = Some hi \<and> lo \<le> hi \<longrightarrow>
               (if {sy * 16 .. sy * 16 + 15} \<inter> {lo .. hi} \<noteq> {}
                then remap_section_palettes lib M F (secs ! i) (sts ! i)
                       = Inr (secs1 ! i, sts ! Suc i)
                else secs1 ! i = secs ! i \<and> sts ! Suc i = sts ! i))
          \<and> (section_y lib (secs ! i) = None \<or> y_min = None \<or> y_max = None \<longrightarrow>
               remap_section_palettes lib M F (secs ! i) (sts ! i)
                 = Inr (secs1 ! i, sts ! Suc i))"
      by (rule remap_section_filter)
  qed
  with g root' l h e show ?thesis by blast
qed

theorem y_filter_spec_witness:
  "remap_chunk_biome_palettes sample_ext sample_chunk sample_mapping (Some 100) (Some 200) None
     = Inr (Compound [(''sections'', List [
              Compound [(''Y'', Byte 8),
                (''biomes'', Compound [(''palette'', List [String ''minecraft:badlands''])])],
              sample_section 4,
              Compound [(''biomes'',
                Compound [(''palette'', List [String ''minecraft:badlands''])])]])],
            True, 2)
   \<and> get_sections sample_chunk
       = Some (List [sample_section 8, sample_section 4, sample_section_no_y])
   \<and> section_y sample_ext (sample_section 8) = Some 8
   \<and> {8 * 16 .. 8 * 16 + 15} \<inter> {100 .. 200 :: int} \<noteq> {}
   \<and> section_y sample_ext (sample_section 4) = Some 4
   \<and> {4 * 16 .. 4 * 16 + 15} \<inter> {100 .. 200 :: int} = {}
   \<and> section_y sample_ext sample_section_no_y = None
   \<and> (\<exists>secs' sts. length secs' = 3 \<and> sts ! 0 = (False, 0) \<and> sts ! 3 = (True, 2)
         \<and> remap_section_palettes sample_ext sample_mapping None (sample_section 8) (sts ! 0)
             = Inr (secs' ! 0, sts ! 1)
         \<and> secs' ! 0 = Compound [(''Y'', Byte 8),
                (''biomes'', Compound [(''palette'', List [String ''minecraft:badlands''])])]
         \<and> sts ! 1 = (True, 1)
         \<and> secs' ! 1 = sample_section 4 \<and> sts ! 2 = sts ! 1
         \<and> remap_section_palettes sample_ext sample_mapping None sample_section_no_y (sts ! 2)
             = Inr (secs' ! 2, sts ! 3)
         \<and> secs' ! 2 = Compound [(''biomes'',
                Compound [(''palette'', List [String ''minecraft:badlands''])])])
   \<and> remap_chunk_biome_palettes sample_ext sample_chunk sample_mapping None (Some 200) None
     = Inr (Compound [(''sections'', List [
              Compound [(''Y'', Byte 8),
                (''biomes'', Compound [(''palette'', List [String ''minecraft:badlands''])])],
              Compound [(''Y'', Byte 4),
                (''biomes'', Compound [(''palette'', List [String ''minecraft:badlands''])])],
              Compound [(''biomes'',
                Compound [(''palette'', List [String ''minecraft:badlands''])])]])],
            True, 3)
   \<and> (\<exists>secs' sts. length secs' = 3 \<and> sts ! 0 = (False, 0) \<and> sts ! 3 = (True, 3)
         \<and> remap_section_palettes sample_ext sample_mapping None (sample_section 4) (sts ! 1)
             = Inr (secs' ! 1, sts ! 2)
         \<and> secs' ! 1 = Compound [(''Y'', Byte 4),
                (''biomes'', Compound [(''palette'', List [String ''minecraft:badlands''])])]
         \<and> sts ! 1 = (True, 1) \<and> sts ! 2 = (True, 2))"
proof -
  let ?secs = "[sample_section 8, sample_section 4, sample_section_no_y]"
  have o8: "{8 * 16 .. 8 * 16 + 15} \<inter> {100 .. 200 :: int} \<noteq> {}" by simp
  have o4: "{4 * 16 .. 4 * 16 + 15} \<inter> {100 .. 200 :: int} = {}" by simp
  from y_filter_spec [OF sample_chunk_filtered sample_chunk_sections]
  obtain secs' sts where
    l: "length secs' = length ?secs" and h: "sts ! 0 = (False, 0)"
    and e: "sts ! length ?secs = (True, 2)"
    and every: "\<forall>i<length ?secs.
            (\<forall>sy lo hi. section_y sample_ext (?secs ! i) = Some sy \<and> Some 100 = Some lo
                         \<and> Some 200 = Some hi \<and> lo \<le> hi \<longrightarrow>
               (if {sy * 16 .. sy * 16 + 15} \<inter> {lo .. hi} \<noteq> {}
                then remap_section_palettes sample_ext sample_mapping None (?secs ! i) (sts ! i)
                       = Inr (secs' ! i, sts ! Suc i)
                else secs' ! i = ?secs ! i \<and> sts ! Suc i = sts ! i))
          \<and> (section_y sample_ext (?secs ! i) = None \<or> Some 100 = (None :: int option)
                \<or> Some 200 = (None :: int option) \<longrightarrow>
               remap_section_palettes sample_ext sample_mapping None (?secs ! i) (sts ! i)
                 = Inr (secs' ! i, sts ! Suc i))"
    by blast
  from every [rule_format, of 0] have s0:
    "remap_section_palettes sample_ext sample_mapping None (sample_section 8) (sts ! 0)
       = Inr (secs' ! 0, sts ! Suc 0)"
    using o8 sample_sections_y(1) [of 8] by simp
  from every [rule_format, of "Suc 0"] have s1:
    "secs' ! Suc 0 = sample_section 4" "sts ! Suc (Suc 0) = sts ! Suc 0"
    using o4 sample_sections_y(1) [of 4] by simp_all
  from every [rule_format, of "Suc (Suc 0)"] have s2:
    "remap_section_palettes sample_ext sample_mapping None sample_section_no_y
       (sts ! Suc (Suc 0)) = Inr (secs' ! Suc (Suc 0), sts ! Suc (Suc (Suc 0)))"
    using sample_sections_y(2) by simp
  from s0 h have v0: "secs' ! 0 = Compound [(''Y'', Byte 8),
                (''biomes'', Compound [(''palette'', List [String ''minecraft:badlands''])])]"
    "sts ! Suc 0 = (True, Suc 0)"
    by (simp_all add: sample_section_palettes)
  from s2 s1 v0 have v2: "secs' ! Suc (Suc 0) = Compound [(''biomes'',
                Compound [(''palette'', List [String ''minecraft:badlands''])])]"
    by (simp add: sample_section_palettes)
  have first: "\<exists>secs' sts. length secs' = 3 \<and> sts ! 0 = (False, 0) \<and> sts ! 3 = (True, 2)
         \<and> remap_section_palettes sample_ext sample_mapping None (sample_section 8) (sts ! 0)
             = Inr (secs' ! 0, sts ! 1)
         \<and> secs' ! 0 = Compound [(''Y'', Byte 8),
                (''biomes'', Compound [(''palette'', List [String ''minecraft:badlands''])])]
         \<and> sts ! 1 = (True, 1)
         \<and> secs' ! 1 = sample_section 4 \<and> sts ! 2 = sts ! 1
         \<and> remap_section_palettes sample_ext sample_mapping None sample_section_no_y (sts ! 2)
             = Inr (secs' ! 2, sts ! 3)
         \<and> secs' ! 2 = Compound [(''biomes'',
                Compound [(''palette'', List [String ''minecraft:badlands''])])]"
    using l h e s0 s1 s2 v0 v2
    by (intro exI [of _ secs'] exI [of _ sts]) (simp add: numeral_2_eq_2 numeral_3_eq_3)
  from y_filter_spec [OF sample_chunk_unbounded sample_chunk_sections]
  obtain secs2 sts2 where
    l2: "length secs2 = length ?secs" and h2: "sts2 ! 0 = (False, 0)"
    and e2: "sts2 ! length ?secs = (True, 3)"
    and every2: "\<forall>i<length ?secs.
            (section_y sample_ext (?secs ! i) = None \<or> (None :: int option) = None
                \<or> Some 200 = (None :: int option) \<longrightarrow>
               remap_section_palettes sample_ext sample_mapping None (?secs ! i) (sts2 ! i)
                 = Inr (secs2 ! i, sts2 ! Suc i))"
    by blast
  from every2 [rule_format, of 0] h2 have w0: "sts2 ! Suc 0 = (True, Suc 0)"
    by (simp add: sample_section_palettes)
  from every2 [rule_format, of "Suc 0"] have w1:
    "remap_section_palettes sample_ext sample_mapping None (sample_section 4) (sts2 ! Suc 0)
       = Inr (secs2 ! Suc 0, sts2 ! Suc (Suc 0))"
    by simp
  from w1 w0 have w2: "secs2 ! Suc 0 = Compound [(''Y'', Byte 4),
                (''biomes'', Compound [(''palette'', List [String ''minecraft:badlands''])])]"
    "sts2 ! Suc (Suc 0) = (True, Suc (Suc 0))"
    by (simp_all add: sample_section_palettes)
  have second: "\<exists>secs' sts. length secs' = 3 \<and> sts ! 0 = (False, 0) \<and> sts ! 3 = (True, 3)
         \<and> remap_section_palettes sample_ext sample_mapping None (sample_section 4) (sts ! 1)
             = Inr (secs' ! 1, sts ! 2)
         \<and> secs' ! 1 = Compound [(''Y'', Byte 4),
                (''biomes'', Compound [(''palette'', List [String ''minecraft:badlands''])])]
         \<and> sts ! 1 = (True, 1) \<and> sts ! 2 = (True, 2)"
    using l2 h2 e2 w0 w1 w2
    by (intro exI [of _ secs2] exI [of _ sts2]) (simp add: numeral_2_eq_2 numeral_3_eq_3)
  from first second sample_chunk_filtered sample_chunk_unbounded sample_chunk_sections
    sample_sections_y(1) [of 8] sample_sections_y(1) [of 4] sample_sections_y(2) o8 o4
  show ?thesis by (simp only: simp_thms)
qed

section \<open>Region codec: encoding and the rebuild loop\<close>

lemma from_bytes_big_snoc: "from_bytes_big (bs @ [b]) = from_bytes_big bs * 256 + unat b"
  by (simp add: from_bytes_big_def)

lemma from_bytes_big_Nil [simp]: "from_bytes_big [] = 0"
  by (simp add: from_bytes_big_def)

lemma length_be_digits [simp]: "length (be_digits k n) = k"
  by (induction k arbitrary: n) auto

lemma unat_byte_of_nat: "unat (word_of_nat n :: byte) = n mod 256"
  by (simp add: unat_of_nat)

lemma from_bytes_be_digits: "from_bytes_big (be_digits k n) = n mod 256 ^ k"
proof (induction k arbitrary: n)
  case 0
  then show ?case by simp
next
  case (Suc k)
  have "n mod (256 * 256 ^ k) = 256 * (n div 256 mod 256 ^ k) + n mod 256"
    by (simp add: mod_mult2_eq)
  with Suc show ?case
    by (simp add: from_bytes_big_snoc unat_byte_of_nat)
qed

lemma from_bytes_big_bound: "from_bytes_big bs < 256 ^ length bs"
proof (induction bs rule: rev_induct)
  case Nil
  then show ?case by simp
next
  case (snoc b bs)
  have "unat b < 256" using unsigned_less [of b] by simp
  with snoc show ?case by (simp add: from_bytes_big_snoc)
qed

lemma length_slice [simp]: "length (slice xs i j) = min j (length xs) - i"
  by (simp add: slice_def)

lemma slice_append_left:
  "j \<le> length xs \<Longrightarrow> slice (xs @ ys) i j = slice xs i j"
  by (simp add: slice_def)

lemma sequence_err_map_Inr:
  "(\<And>x. x \<in> set xs \<Longrightarrow> f x = Inr (g x)) \<Longrightarrow> sequence_err (map f xs) = Inr (map g xs)"
  by (induction xs) auto

lemma sequence_err_Inl:
  "(\<And>x. x \<in> set xs \<Longrightarrow> f x = Inr (g x) \<or> f x = Inl e) \<Longrightarrow> y \<in> set xs \<Longrightarrow> f y = Inl e \<Longrightarrow>
   sequence_err (map f xs) = Inl e"
proof (induction xs)
  case Nil
  then show ?case by simp
next
  case (Cons x xs)
  show ?case
  proof (cases "f x")
    case (Inl a)
    with Cons.prems(1) [of x] show ?thesis by auto
  next
    case (Inr b)
    with Cons.prems have "y \<in> set xs" by auto
    with Cons Inr show ?thesis by (auto split: sum.splits)
  qed
qed

lemma fold_err_append:
  "fold_err f (xs @ ys) st =
     (case fold_err f xs st of Inl e \<Rightarrow> Inl e | Inr st' \<Rightarrow> fold_err f ys st')"
  by (induction xs arbitrary: st) (auto split: sum.splits)

lemma read_location_long:
  assumes "i * 4 + 4 \<le> length rb"
  shows "read_location rb i =
           Inr (from_bytes_big (take 3 (drop (i * 4) rb)), unat (rb ! (i * 4 + 3)))"
proof -
  have "slice rb (i * 4) (i * 4 + 4) ! 3 = rb ! (i * 4 + 3)"
    using assms by (simp add: slice_def add.commute)
  moreover have "take 3 (slice rb (i * 4) (i * 4 + 4)) = take 3 (drop (i * 4) rb)"
    using assms by (simp add: slice_def take_drop add.commute)
  ultimately show ?thesis using assms by (simp add: read_location_def Let_def)
qed

lemma read_location_short:
  assumes "length rb < i * 4 + 4"
  shows "read_location rb i = Inl IndexError"
  using assms by (simp add: read_location_def Let_def)

lemma read_locations_long:
  assumes "4096 \<le> length rb"
  shows "read_locations rb =
           Inr (map (\<lambda>i. (from_bytes_big (take 3 (drop (i * 4) rb)), unat (rb ! (i * 4 + 3))))
                  [0..<1024])"
  unfolding read_locations_def
  by (rule sequence_err_map_Inr) (use assms in \<open>auto intro!: read_location_long\<close>)

lemma read_locations_short:
  assumes "length rb < 4096"
  shows "read_locations rb = Inl IndexError"
  unfolding read_locations_def
proof (rule sequence_err_Inl [where y = 1023 and
      g = "\<lambda>i. (from_bytes_big (take 3 (drop (i * 4) rb)), unat (rb ! (i * 4 + 3)))"])
  fix x assume "x \<in> set [0..<1024::nat]"
  show "read_location rb x =
          Inr (from_bytes_big (take 3 (drop (x * 4) rb)), unat (rb ! (x * 4 + 3)))
        \<or> read_location rb x = Inl IndexError"
    using read_location_long [of x rb] read_location_short [of rb x] by (cases "x * 4 + 4 \<le> length rb") auto
next
  show "1023 \<in> set [0..<1024::nat]" by simp
next
  show "read_location rb 1023 = Inl IndexError"
    using assms by (intro read_location_short) simp
qed

lemma read_locations_length:
  "read_locations rb = Inr locs \<Longrightarrow> length locs = 1024 \<and> 4096 \<le> length rb"
  using read_locations_long [of rb] read_locations_short [of rb]
  by (cases "4096 \<le> length rb") auto

lemma length_enc_loc [simp]: "length (enc_loc e) = 4"
  by (simp add: enc_loc_def)

lemma length_enc_ts [simp]: "length (enc_ts t) = 4"
  by (simp add: enc_ts_def)

lemma length_concat_fixed:
  "(\<And>x. x \<in> set xs \<Longrightarrow> length (f x) = m) \<Longrightarrow> length (concat (map f xs)) = length xs * m"
  by (induction xs) auto

lemma drop_concat_fixed:
  assumes "\<And>x. length (f x) = m" and "i \<le> length xs"
  shows "drop (i * m) (concat (map f xs) @ rest) = concat (map f (drop i xs)) @ rest"
  using assms(2)
proof (induction xs arbitrary: i)
  case Nil
  then show ?case by simp
next
  case (Cons x xs)
  show ?case
  proof (cases i)
    case 0
    then show ?thesis by simp
  next
    case (Suc j)
    with Cons.prems have "j \<le> length xs" by simp
    from Cons.IH [OF this] Suc assms(1) [of x] show ?thesis by simp
  qed
qed

lemma block_concat_fixed:
  assumes "\<And>x. length (f x) = m" and "i < length xs"
  shows "take m (drop (i * m) (concat (map f xs) @ rest)) = f (xs ! i)"
proof -
  have "drop i xs = xs ! i # drop (Suc i) xs"
    using assms(2) by (simp add: Cons_nth_drop_Suc)
  with drop_concat_fixed [of f m i xs rest] assms show ?thesis by simp
qed

lemma write_location_ok:
  assumes "off < 256 ^ 3" and "i * 4 + 4 \<le> length header"
  shows "write_location header (i, off, count) =
           Inr (take (i * 4) header @ enc_loc (off, count) @ drop (i * 4 + 4) header)"
proof -
  have "header ! (i * 4 + 3) # drop (Suc (i * 4 + 3)) header = drop (i * 4 + 3) header"
    by (rule Cons_nth_drop_Suc) (use assms(2) in simp)
  then have d: "drop (i * 4 + 3) header = header ! (i * 4 + 3) # drop (i * 4 + 4) header"
    by (simp add: add.commute)
  have "(take (i * 4) header @ be_digits 3 off @ drop (i * 4 + 3) header)
          [i * 4 + 3 := word_of_nat (count mod 256)]
        = take (i * 4) header @ be_digits 3 off @ [word_of_nat (count mod 256)]
            @ drop (i * 4 + 4) header"
    using assms(2) unfolding d by (simp add: list_update_append)
  then show ?thesis
    using assms(1) by (simp add: write_location_def to_bytes_big_def set_slice_def enc_loc_def)
qed

lemma write_location_overflow:
  "\<not> off < 256 ^ 3 \<Longrightarrow> write_location header (i, off, count) = Inl OverflowError"
  by (simp add: write_location_def to_bytes_big_def)

lemma write_timestamp_ok:
  assumes "t < 256 ^ 4"
  shows "write_timestamp header (i, t) =
           Inr (take (4096 + i * 4) header @ enc_ts t @ drop (4096 + i * 4 + 4) header)"
  using assms
  by (simp add: write_timestamp_def to_bytes_big_def set_slice_def enc_ts_def SECTOR_BYTES_def)

lemma write_timestamp_overflow:
  "\<not> t < 256 ^ 4 \<Longrightarrow> write_timestamp header (i, t) = Inl OverflowError"
  by (simp add: write_timestamp_def to_bytes_big_def)

lemma write_locations_ok:
  assumes "\<And>e. e \<in> set xs \<Longrightarrow> fst e < 256 ^ 3"
    and "(k + length xs) * 4 \<le> length header"
  shows "fold_err write_location (enumerate k xs) header =
           Inr (take (k * 4) header @ concat (map enc_loc xs)
                  @ drop ((k + length xs) * 4) header)"
  using assms
proof (induction xs arbitrary: k header)
  case Nil
  then show ?case by simp
next
  case (Cons x xs)
  obtain off count where x: "x = (off, count)" by (cases x)
  let ?h = "take (k * 4) header @ enc_loc (off, count) @ drop (k * 4 + 4) header"
  have "off < 256 ^ 3" using Cons.prems(1) [of x] x by simp
  moreover have "k * 4 + 4 \<le> length header" using Cons.prems(2) by simp
  ultimately have w: "write_location header (k, x) = Inr ?h"
    unfolding x by (rule write_location_ok)
  have len: "length ?h = length header" using Cons.prems(2) by simp
  have "fold_err write_location (enumerate (Suc k) xs) ?h =
          Inr (take (Suc k * 4) ?h @ concat (map enc_loc xs)
                 @ drop ((Suc k + length xs) * 4) ?h)"
    using Cons.prems by (intro Cons.IH) (auto simp: len)
  moreover have "take (Suc k * 4) ?h = take (k * 4) header @ enc_loc (off, count)"
    using Cons.prems(2) by simp
  moreover have "drop ((Suc k + length xs) * 4) ?h = drop ((Suc k + length xs) * 4) header"
    using Cons.prems(2) by (simp add: ac_simps)
  ultimately show ?case using w x by simp
qed

lemma write_timestamps_ok:
  assumes "\<And>t. t \<in> set xs \<Longrightarrow> t < 256 ^ 4"
    and "4096 + (k + length xs) * 4 \<le> length header"
  shows "fold_err write_timestamp (enumerate k xs) header =
           Inr (take (4096 + k * 4) header @ concat (map enc_ts xs)
                  @ drop (4096 + (k + length xs) * 4) header)"
  using assms
proof (induction xs arbitrary: k header)
  case Nil
  then show ?case by simp
next
  case (Cons x xs)
  let ?h = "take (4096 + k * 4) header @ enc_ts x @ drop (4096 + k * 4 + 4) header"
  have "x < 256 ^ 4" using Cons.prems(1) [of x] by simp
  then have w: "write_timestamp header (k, x) = Inr ?h"
    by (rule write_timestamp_ok)
  have len: "length ?h = length header" using Cons.prems(2) by simp
  have "fold_err write_timestamp (enumerate (Suc k) xs) ?h =
          Inr (take (4096 + Suc k * 4) ?h @ concat (map enc_ts xs)
                 @ drop (4096 + (Suc k + length xs) * 4) ?h)"
    using Cons.prems by (intro Cons.IH) (auto simp: len)
  moreover have "take (4096 + Suc k * 4) ?h = take (4096 + k * 4) header @ enc_ts x"
    using Cons.prems(2) by (simp add: ac_simps)
  moreover have "drop (4096 + (Suc k + length xs) * 4) ?h
                   = drop (4096 + (Suc k + length xs) * 4) header"
    using Cons.prems(2) by (simp add: ac_simps)
  ultimately show ?case using w by simp
qed

lemma fold_err_overflow_loc:
  assumes "e \<in> set xs" and "\<not> fst e < 256 ^ 3"
  shows "\<exists>err. fold_err write_location (enumerate k xs) header = Inl err"
  using assms
proof (induction xs arbitrary: k header)
  case Nil
  then show ?case by simp
next
  case (Cons x xs)
  obtain off count where x: "x = (off, count)" by (cases x)
  show ?case
  proof (cases "write_location header (k, x)")
    case (Inl a)
    then show ?thesis by simp
  next
    case (Inr h)
    then have "off < 256 ^ 3"
      using write_location_overflow [of off header k count] x by auto
    with Cons.prems x have "e \<in> set xs" by auto
    from Cons.IH [OF this Cons.prems(2), of "Suc k" h] Inr show ?thesis by simp
  qed
qed

lemma fold_err_overflow_ts:
  assumes "t \<in> set xs" and "\<not> t < 256 ^ 4"
  shows "fold_err write_timestamp (enumerate k xs) header = Inl OverflowError"
  using assms
proof (induction xs arbitrary: k header)
  case Nil
  then show ?case by simp
next
  case (Cons x xs)
  show ?case
  proof (cases "x < 256 ^ 4")
    case False
    then show ?thesis by (simp add: write_timestamp_overflow)
  next
    case True
    with Cons.prems have "t \<in> set xs" by auto
    from Cons.IH [OF this Cons.prems(2)] write_timestamp_ok [OF True] show ?thesis by simp
  qed
qed

lemma slot_offset_Suc: "slot_offset pick (Suc k) = slot_offset pick k + slot_sectors pick k"
  by (simp add: slot_offset_def)

lemma map_upt_update:
  assumes "k < n"
  shows "(map (\<lambda>i. if i < k then f i else z) [0..<n])[k := f k]
           = map (\<lambda>i. if i < Suc k then f i else z) [0..<n]"
  using assms by (auto simp: list_eq_iff_nth_eq nth_list_update less_Suc_eq)

lemma map_upt_skip:
  assumes "f k = z"
  shows "map (\<lambda>i. if i < k then f i else z) [0..<n]
           = map (\<lambda>i. if i < Suc k then f i else z) [0..<n]"
  using assms by (auto simp: less_Suc_eq)

lemma rebuild_step_state_at:
  assumes "k < 1024" and "slot_sectors pick k \<le> 255"
    and "pick_blob original updated now_ts locs ts = pick"
  shows "rebuild_step original updated now_ts locs ts (state_at pick k) k
           = Inr (state_at pick (Suc k))"
proof (cases "pick k")
  case None
  then have "loc_entry pick k = (0, 0)" "ts_entry pick k = 0" "slot_bytes pick k = []"
    "slot_sectors pick k = 0"
    by (simp_all add: loc_entry_def ts_entry_def slot_bytes_def slot_sectors_def)
  then have "state_at pick (Suc k) = state_at pick k"
    unfolding state_at_def
    using map_upt_skip [of "loc_entry pick" k "(0, 0)" 1024]
      map_upt_skip [of "ts_entry pick" k 0 1024]
    by (simp add: slot_offset_Suc)
  with None assms(3) show ?thesis by (simp add: rebuild_step_def)
next
  case (Some p)
  obtain blob t where p: "p = (blob, t)" by (cases p)
  with Some have pk: "pick k = Some (blob, t)" by simp
  then have e: "loc_entry pick k = (slot_offset pick k, sectors_needed blob)"
    "ts_entry pick k = t"
    "slot_bytes pick k = blob @ replicate (sectors_needed blob * SECTOR_BYTES - length blob) 0"
    "slot_sectors pick k = sectors_needed blob"
    by (simp_all add: loc_entry_def ts_entry_def slot_bytes_def slot_sectors_def)
  have "rebuild_step original updated now_ts locs ts (state_at pick k) k
          = Inr \<lparr> current_sector = slot_offset pick k + sectors_needed blob,
                  new_locs = (map (\<lambda>i. if i < k then loc_entry pick i else (0, 0)) [0..<1024])
                               [k := loc_entry pick k],
                  new_ts = (map (\<lambda>i. if i < k then ts_entry pick i else 0) [0..<1024])
                               [k := ts_entry pick k],
                  out = replicate HEADER_BYTES 0 @ concat (map (slot_bytes pick) [0..<k])
                          @ slot_bytes pick k \<rparr>"
    using pk assms(2,3) e by (simp add: rebuild_step_def state_at_def)
  also have "\<dots> = Inr (state_at pick (Suc k))"
    unfolding state_at_def
    using map_upt_update [OF assms(1), of "loc_entry pick" "(0, 0)"]
      map_upt_update [OF assms(1), of "ts_entry pick" 0] e(4)
    by (simp add: slot_offset_Suc)
  finally show ?thesis .
qed

lemma rebuild_loop_ok:
  assumes "pick_blob original updated now_ts locs ts = pick"
  shows "k \<le> 1024 \<Longrightarrow> (\<And>i. i < k \<Longrightarrow> slot_sectors pick i \<le> 255) \<Longrightarrow>
         fold_err (rebuild_step original updated now_ts locs ts) [0..<k] (state_at pick 0)
           = Inr (state_at pick k)"
proof (induction k)
  case 0
  then show ?case by simp
next
  case (Suc k)
  then have "fold_err (rebuild_step original updated now_ts locs ts) [0..<k] (state_at pick 0)
               = Inr (state_at pick k)" by simp
  moreover have "rebuild_step original updated now_ts locs ts (state_at pick k) k
                   = Inr (state_at pick (Suc k))"
    using Suc.prems by (intro rebuild_step_state_at assms) auto
  ultimately show ?case by (simp add: fold_err_append)
qed

lemma rebuild_loop_fail:
  assumes "pick_blob original updated now_ts locs ts = pick"
    and "i < k" "k \<le> 1024" "255 < slot_sectors pick i"
    and "\<And>j. j < i \<Longrightarrow> slot_sectors pick j \<le> 255"
  shows "fold_err (rebuild_step original updated now_ts locs ts) [0..<k] (state_at pick 0)
           = Inl (ChunkTooLarge (slot_sectors pick i))"
proof -
  have "[0..<k] = [0..<i] @ i # [Suc i..<k]"
    using assms(2) by (metis less_imp_add_positive upt_add_eq_append upt_conv_Cons zero_le upt_rec)
  moreover have "fold_err (rebuild_step original updated now_ts locs ts) [0..<i] (state_at pick 0)
                   = Inr (state_at pick i)"
    using assms by (intro rebuild_loop_ok) auto
  moreover have "rebuild_step original updated now_ts locs ts (state_at pick i) i
                   = Inl (ChunkTooLarge (slot_sectors pick i))"
    using assms(1,4) by (auto simp: rebuild_step_def slot_sectors_def split: option.splits)
  ultimately show ?thesis by (simp add: fold_err_append)
qed

lemma slot_offset_bound:
  "(\<And>i. i < k \<Longrightarrow> slot_sectors pick i \<le> 255) \<Longrightarrow> slot_offset pick k \<le> 2 + 255 * k"
proof (induction k)
  case 0
  then show ?case by (simp add: slot_offset_def)
next
  case (Suc k)
  then have "slot_offset pick k \<le> 2 + 255 * k" "slot_sectors pick k \<le> 255" by auto
  then show ?case by (simp add: slot_offset_Suc)
qed

lemma slot_offset_mono: "i \<le> j \<Longrightarrow> slot_offset pick i \<le> slot_offset pick j"
proof (induction j)
  case 0
  then show ?case by simp
next
  case (Suc j)
  then show ?case by (cases "i = Suc j") (auto simp: slot_offset_Suc)
qed

lemma slot_offset_ge2: "2 \<le> slot_offset pick i"
  by (simp add: slot_offset_def)

lemma loc_entry_fst_bound:
  assumes "\<And>i. i < 1024 \<Longrightarrow> slot_sectors pick i \<le> 255" and "i < 1024"
  shows "fst (loc_entry pick i) < 256 ^ 3"
proof -
  have "slot_offset pick i \<le> 2 + 255 * i"
    using assms by (intro slot_offset_bound) auto
  with assms(2) have "slot_offset pick i < 256 ^ 3" by simp
  then show ?thesis by (simp add: loc_entry_def split: option.splits)
qed

lemma state_at_0:
  "state_at pick 0 = \<lparr> current_sector = 2, new_locs = replicate 1024 (0, 0),
                        new_ts = replicate 1024 0, out = replicate HEADER_BYTES 0 \<rparr>"
  by (simp add: state_at_def slot_offset_def map_replicate_const)

lemma state_at_1024:
  "state_at pick 1024 = \<lparr> current_sector = slot_offset pick 1024,
       new_locs = map (loc_entry pick) [0..<1024],
       new_ts = map (ts_entry pick) [0..<1024],
       out = replicate HEADER_BYTES 0 @ concat (map (slot_bytes pick) [0..<1024]) \<rparr>"
  by (simp add: state_at_def)

lemma header_written:
  assumes "\<And>e. e \<in> set L \<Longrightarrow> fst e < 256 ^ 3" and "\<And>t. t \<in> set T \<Longrightarrow> t < 256 ^ 4"
    and "length L = 1024" and "length T = 1024"
  shows "(case fold_err write_location (enumerate 0 L) (replicate HEADER_BYTES 0) of
            Inl e \<Rightarrow> Inl e
          | Inr header \<Rightarrow>
              (case fold_err write_timestamp (enumerate 0 T) header of
                 Inl e \<Rightarrow> Inl e
               | Inr header \<Rightarrow> Inr (set_slice (outb :: bytes) 0 HEADER_BYTES header)))
         = Inr (concat (map enc_loc L) @ concat (map enc_ts T) @ drop 8192 outb)"
proof -
  let ?h0 = "replicate HEADER_BYTES (0 :: byte)"
  let ?h1 = "concat (map enc_loc L) @ drop 4096 ?h0"
  have l1: "length (concat (map enc_loc L)) = 4096"
    using length_concat_fixed [of L enc_loc 4] assms(3) by simp
  have l2: "length (concat (map enc_ts T)) = 4096"
    using length_concat_fixed [of T enc_ts 4] assms(4) by simp
  have a: "fold_err write_location (enumerate 0 L) ?h0 = Inr ?h1"
    using write_locations_ok [of L 0 ?h0] assms(1,3)
    by (simp add: HEADER_BYTES_def SECTOR_BYTES_def)
  have "fold_err write_timestamp (enumerate 0 T) ?h1 =
          Inr (take (4096 + 0 * 4) ?h1 @ concat (map enc_ts T)
                 @ drop (4096 + (0 + length T) * 4) ?h1)"
    using assms(2,4) l1
    by (intro write_timestamps_ok) (auto simp: HEADER_BYTES_def SECTOR_BYTES_def)
  then have b: "fold_err write_timestamp (enumerate 0 T) ?h1 =
                  Inr (concat (map enc_loc L) @ concat (map enc_ts T))"
    using l1 assms(4) by (simp add: HEADER_BYTES_def SECTOR_BYTES_def)
  show ?thesis
    using a b by (simp add: set_slice_def HEADER_BYTES_def SECTOR_BYTES_def)
qed

lemma ts_entry_mem:
  "t \<in> set (map (ts_entry pick) [0..<1024]) \<Longrightarrow> \<exists>i<1024. t = ts_entry pick i"
  by auto

lemma rebuild_region_ok:
  assumes rl: "read_locations original = Inr locs"
    and pick: "pick_blob original updated now_ts locs (read_timestamps original) = pick"
    and small: "\<And>i. i < 1024 \<Longrightarrow> slot_sectors pick i \<le> 255"
    and tsok: "\<And>i. i < 1024 \<Longrightarrow> ts_entry pick i < 256 ^ 4"
  shows "rebuild_region original updated now_ts = Inr (rebuilt_bytes pick)"
proof -
  have loop: "fold_err (rebuild_step original updated now_ts locs (read_timestamps original))
                [0..<1024] (state_at pick 0) = Inr (state_at pick 1024)"
    using small by (intro rebuild_loop_ok pick) auto
  have hdr: "(case fold_err write_location (enumerate 0 (map (loc_entry pick) [0..<1024]))
                     (replicate HEADER_BYTES 0) of
                Inl e \<Rightarrow> Inl e
              | Inr header \<Rightarrow>
                  (case fold_err write_timestamp (enumerate 0 (map (ts_entry pick) [0..<1024]))
                          header of
                     Inl e \<Rightarrow> Inl e
                   | Inr header \<Rightarrow>
                       Inr (set_slice (replicate HEADER_BYTES 0
                              @ concat (map (slot_bytes pick) [0..<1024])) 0 HEADER_BYTES header)))
             = Inr (rebuilt_bytes pick)"
    unfolding rebuilt_bytes_def
    using loc_entry_fst_bound [of pick] small tsok
    by (subst header_written) (auto simp: HEADER_BYTES_def SECTOR_BYTES_def)
  show ?thesis
    unfolding rebuild_region_def Let_def
    using rl loop [unfolded state_at_0 state_at_1024] hdr by (simp cong: sum.case_cong)
qed

lemma rebuild_region_too_large:
  assumes rl: "read_locations original = Inr locs"
    and pick: "pick_blob original updated now_ts locs (read_timestamps original) = pick"
    and i: "i < 1024" "255 < slot_sectors pick i"
    and least: "\<And>j. j < i \<Longrightarrow> slot_sectors pick j \<le> 255"
  shows "rebuild_region original updated now_ts = Inl (ChunkTooLarge (slot_sectors pick i))"
proof -
  have "fold_err (rebuild_step original updated now_ts locs (read_timestamps original))
          [0..<1024] (state_at pick 0) = Inl (ChunkTooLarge (slot_sectors pick i))"
    using i least by (intro rebuild_loop_fail pick) auto
  then show ?thesis
    unfolding rebuild_region_def Let_def state_at_0 using rl by simp
qed

lemma rebuild_region_ts_overflow:
  assumes rl: "read_locations original = Inr locs"
    and pick: "pick_blob original updated now_ts locs (read_timestamps original) = pick"
    and small: "\<And>i. i < 1024 \<Longrightarrow> slot_sectors pick i \<le> 255"
    and i: "i < 1024" "\<not> ts_entry pick i < 256 ^ 4"
  shows "rebuild_region original updated now_ts = Inl OverflowError"
proof -
  let ?h0 = "replicate HEADER_BYTES (0 :: byte)"
  have loop: "fold_err (rebuild_step original updated now_ts locs (read_timestamps original))
                [0..<1024] (state_at pick 0) = Inr (state_at pick 1024)"
    using small by (intro rebuild_loop_ok pick) auto
  have "fold_err write_location (enumerate 0 (map (loc_entry pick) [0..<1024])) ?h0 =
          Inr (take (0 * 4) ?h0 @ concat (map enc_loc (map (loc_entry pick) [0..<1024]))
                 @ drop ((0 + length (map (loc_entry pick) [0..<1024])) * 4) ?h0)"
    using loc_entry_fst_bound [of pick] small
    by (intro write_locations_ok) (auto simp: HEADER_BYTES_def SECTOR_BYTES_def)
  then obtain h1 where
    a: "fold_err write_location (enumerate 0 (map (loc_entry pick) [0..<1024])) ?h0 = Inr h1"
    by blast
  have "ts_entry pick i \<in> set (map (ts_entry pick) [0..<1024])" using i(1) by simp
  from fold_err_overflow_ts [OF this i(2)] have
    b: "fold_err write_timestamp (enumerate 0 (map (ts_entry pick) [0..<1024])) h1
          = Inl OverflowError" .
  show ?thesis
    unfolding rebuild_region_def Let_def
    using rl loop [unfolded state_at_0 state_at_1024] a b by (simp cong: sum.case_cong)
qed

lemma sectors_needed_covers: "length blob \<le> sectors_needed blob * SECTOR_BYTES"
  unfolding sectors_needed_def SECTOR_BYTES_def by (simp add: max_def) arith

lemma sectors_needed_pos: "1 \<le> sectors_needed blob"
  by (simp add: sectors_needed_def)

lemma length_slot_bytes: "length (slot_bytes pick i) = slot_sectors pick i * SECTOR_BYTES"
  using sectors_needed_covers
  by (auto simp: slot_bytes_def slot_sectors_def split: option.splits)

lemma length_payload:
  "HEADER_BYTES + length (concat (map (slot_bytes pick) [0..<k])) = slot_offset pick k * SECTOR_BYTES"
proof (induction k)
  case 0
  then show ?case by (simp add: slot_offset_def HEADER_BYTES_def)
next
  case (Suc k)
  then show ?case
    by (simp add: slot_offset_Suc length_slot_bytes add_mult_distrib)
qed

lemma length_tables:
  "length (concat (map enc_loc (map (loc_entry pick) [0..<1024]))) = 4096"
  "length (concat (map enc_ts (map (ts_entry pick) [0..<1024]))) = 4096"
  using length_concat_fixed [of "map (loc_entry pick) [0..<1024]" enc_loc 4]
    length_concat_fixed [of "map (ts_entry pick) [0..<1024]" enc_ts 4]
  by simp_all

lemma length_rebuilt_bytes: "length (rebuilt_bytes pick) = slot_offset pick 1024 * SECTOR_BYTES"
  using length_payload [of pick 1024] length_tables [of pick]
  by (simp add: rebuilt_bytes_def HEADER_BYTES_def SECTOR_BYTES_def)

lemma rebuilt_loc_block:
  assumes "i < 1024"
  shows "take 4 (drop (i * 4) (rebuilt_bytes pick)) = enc_loc (loc_entry pick i)"
proof -
  have "take 4 (drop (i * 4) (rebuilt_bytes pick))
          = enc_loc (map (loc_entry pick) [0..<1024] ! i)"
    unfolding rebuilt_bytes_def by (rule block_concat_fixed) (simp_all add: assms)
  also have "map (loc_entry pick) [0..<1024] ! i = loc_entry pick i"
    using assms by simp
  finally show ?thesis .
qed

lemma rebuilt_ts_block:
  assumes "i < 1024"
  shows "take 4 (drop (4096 + i * 4) (rebuilt_bytes pick)) = enc_ts (ts_entry pick i)"
proof -
  have "drop (4096 + i * 4) (rebuilt_bytes pick)
          = drop (i * 4) (concat (map enc_ts (map (ts_entry pick) [0..<1024]))
                           @ concat (map (slot_bytes pick) [0..<1024]))"
    unfolding rebuilt_bytes_def using length_tables(1) [of pick]
    by (simp add: add.commute del: map_map)
  moreover have "take 4 (drop (i * 4) (concat (map enc_ts (map (ts_entry pick) [0..<1024]))
                           @ concat (map (slot_bytes pick) [0..<1024])))
          = enc_ts (map (ts_entry pick) [0..<1024] ! i)"
    by (rule block_concat_fixed) (simp_all add: assms)
  moreover have "map (ts_entry pick) [0..<1024] ! i = ts_entry pick i"
    using assms by simp
  ultimately show ?thesis by simp
qed

lemma slot_sectors_loc_entry: "snd (loc_entry pick i) = slot_sectors pick i"
  by (simp add: loc_entry_def slot_sectors_def split: option.splits)

lemma read_locations_rebuilt:
  assumes "\<And>i. i < 1024 \<Longrightarrow> slot_sectors pick i \<le> 255"
  shows "read_locations (rebuilt_bytes pick) = Inr (map (loc_entry pick) [0..<1024])"
proof -
  have len: "4096 \<le> length (rebuilt_bytes pick)"
    using length_tables [of pick] by (simp add: rebuilt_bytes_def)
  have "(from_bytes_big (take 3 (drop (i * 4) (rebuilt_bytes pick))),
         unat (rebuilt_bytes pick ! (i * 4 + 3))) = loc_entry pick i" if i: "i < 1024" for i
  proof -
    let ?b = "take 4 (drop (i * 4) (rebuilt_bytes pick))"
    have b: "?b = enc_loc (loc_entry pick i)" using i by (rule rebuilt_loc_block)
    have "take 3 (drop (i * 4) (rebuilt_bytes pick)) = take 3 ?b" by simp
    also have "\<dots> = be_digits 3 (fst (loc_entry pick i))"
      unfolding b by (simp add: enc_loc_def)
    finally have f: "from_bytes_big (take 3 (drop (i * 4) (rebuilt_bytes pick)))
                       = fst (loc_entry pick i)"
      using loc_entry_fst_bound [of pick i] assms i by (simp add: from_bytes_be_digits)
    have "rebuilt_bytes pick ! (i * 4 + 3) = ?b ! 3"
      using len i by simp
    also have "\<dots> = word_of_nat (snd (loc_entry pick i) mod 256)"
      unfolding b by (simp add: enc_loc_def nth_append)
    finally have "unat (rebuilt_bytes pick ! (i * 4 + 3)) = snd (loc_entry pick i)"
      using assms [OF i] by (simp add: unat_byte_of_nat slot_sectors_loc_entry)
    with f show ?thesis by (simp add: prod_eq_iff)
  qed
  then have "map (\<lambda>i. (from_bytes_big (take 3 (drop (i * 4) (rebuilt_bytes pick))),
                     unat (rebuilt_bytes pick ! (i * 4 + 3)))) [0..<1024]
             = map (loc_entry pick) [0..<1024]"
    by (intro map_cong) auto
  then show ?thesis
    using read_locations_long [OF len] by (simp only:)
qed

lemma read_timestamps_rebuilt:
  assumes "\<And>i. i < 1024 \<Longrightarrow> ts_entry pick i < 256 ^ 4"
  shows "read_timestamps (rebuilt_bytes pick) = map (ts_entry pick) [0..<1024]"
proof -
  have len: "8192 \<le> length (rebuilt_bytes pick)"
    using length_tables [of pick] by (simp add: rebuilt_bytes_def)
  have "from_bytes_big (slice (rebuilt_bytes pick) (SECTOR_BYTES + i * 4) (SECTOR_BYTES + i * 4 + 4))
          = ts_entry pick i" if i: "i < 1024" for i
  proof -
    have "slice (rebuilt_bytes pick) (SECTOR_BYTES + i * 4) (SECTOR_BYTES + i * 4 + 4)
            = take 4 (drop (4096 + i * 4) (rebuilt_bytes pick))"
      by (simp add: slice_def SECTOR_BYTES_def drop_take)
    then show ?thesis
      using rebuilt_ts_block [OF i, of pick] assms [OF i]
      by (simp add: enc_ts_def from_bytes_be_digits)
  qed
  then have "map (\<lambda>i. from_bytes_big (slice (rebuilt_bytes pick) (SECTOR_BYTES + i * 4)
                                       (SECTOR_BYTES + i * 4 + 4))) [0..<1024]
             = map (ts_entry pick) [0..<1024]"
    by (intro map_cong) auto
  then show ?thesis unfolding read_timestamps_def by (simp only:)
qed

lemma drop_payload:
  assumes "i \<le> 1024"
  shows "drop (slot_offset pick i * SECTOR_BYTES) (rebuilt_bytes pick)
           = concat (map (slot_bytes pick) [i..<1024])"
proof -
  have split: "[0..<1024] = [0..<i] @ [i..<1024]"
    using assms by (metis le_add_diff_inverse upt_add_eq_append zero_le)
  have "rebuilt_bytes pick =
          (concat (map enc_loc (map (loc_entry pick) [0..<1024]))
             @ concat (map enc_ts (map (ts_entry pick) [0..<1024]))
             @ concat (map (slot_bytes pick) [0..<i]))
          @ concat (map (slot_bytes pick) [i..<1024])"
    unfolding rebuilt_bytes_def by (subst (3) split) simp
  moreover have "length (concat (map enc_loc (map (loc_entry pick) [0..<1024]))
             @ concat (map enc_ts (map (ts_entry pick) [0..<1024]))
             @ concat (map (slot_bytes pick) [0..<i])) = slot_offset pick i * SECTOR_BYTES"
    using length_payload [of pick i] length_tables [of pick]
    by (simp add: HEADER_BYTES_def SECTOR_BYTES_def)
  ultimately show ?thesis by (metis append_eq_conv_conj)
qed

lemma rebuilt_blob_at:
  assumes "i < 1024" and "pick i = Some (blob, t)"
  shows "take (length blob) (drop (slot_offset pick i * SECTOR_BYTES) (rebuilt_bytes pick)) = blob"
proof -
  have "[i..<1024] = i # [Suc i..<1024]" using assms(1) by (simp add: upt_conv_Cons)
  then show ?thesis
    using drop_payload [of i pick] assms by (simp add: slot_bytes_def)
qed

lemma take_slice: "i + k \<le> j \<Longrightarrow> take k (slice xs i j) = slice xs i (i + k)"
  by (simp add: slice_def take_drop add.commute)

lemma get_chunk_blob_unfold:
  "get_chunk_blob rb off count =
     (if off = 0 \<or> count = 0 then None
      else if off * SECTOR_BYTES + 5 > length rb
              \<or> off * SECTOR_BYTES + count * SECTOR_BYTES > length rb then None
      else if from_bytes_big (slice rb (off * SECTOR_BYTES) (off * SECTOR_BYTES + 4)) = 0 then None
      else if off * SECTOR_BYTES + 4
                + from_bytes_big (slice rb (off * SECTOR_BYTES) (off * SECTOR_BYTES + 4))
              > length rb then None
      else Some (slice rb (off * SECTOR_BYTES)
                   (off * SECTOR_BYTES + 4
                      + from_bytes_big (slice rb (off * SECTOR_BYTES) (off * SECTOR_BYTES + 4)))))"
  by (simp add: get_chunk_blob_def Let_def)

lemma get_chunk_blob_ok:
  assumes "get_chunk_blob rb off count = Some blob"
  shows "blob_ok blob"
proof -
  let ?start = "off * SECTOR_BYTES"
  let ?len = "from_bytes_big (slice rb ?start (?start + 4))"
  from assms have a: "0 < ?len" "?start + 4 + ?len \<le> length rb"
    and b: "blob = slice rb ?start (?start + 4 + ?len)"
    unfolding get_chunk_blob_unfold by (simp_all split: if_splits)
  have "take 4 blob = slice rb ?start (?start + 4)"
    unfolding b by (rule take_slice) simp
  moreover have "length blob = 4 + ?len" unfolding b using a by simp
  ultimately show ?thesis using a(1) by (simp add: blob_ok_def)
qed

text \<open>
  So every blob that extraction hands to the envelope decoder has at least five bytes and a
  declared length of at least 1.
\<close>

lemma get_chunk_blob_declared_length:
  assumes "get_chunk_blob rb off count = Some blob"
  shows "5 \<le> length blob \<and> 1 \<le> from_bytes_big (take 4 blob)
         \<and> length (drop 5 blob) + 1 = from_bytes_big (take 4 blob)"
  using get_chunk_blob_ok [OF assms] by (auto simp: blob_ok_def)

lemma get_chunk_blob_rebuilt:
  assumes i: "i < 1024" and p: "pick i = Some (blob, t)" and ok: "blob_ok blob"
  shows "get_chunk_blob (rebuilt_bytes pick) (slot_offset pick i) (sectors_needed blob) = Some blob"
proof -
  let ?rb = "rebuilt_bytes pick"
  let ?start = "slot_offset pick i * SECTOR_BYTES"
  let ?L = "from_bytes_big (take 4 blob)"
  have lb: "length blob = 4 + ?L" "0 < ?L" using ok by (simp_all add: blob_ok_def)
  have at: "take (length blob) (drop ?start ?rb) = blob" using i p by (rule rebuilt_blob_at)
  have ss: "slot_sectors pick i = sectors_needed blob" using p by (simp add: slot_sectors_def)
  have "slot_offset pick (Suc i) \<le> slot_offset pick 1024"
    using i by (intro slot_offset_mono) simp
  then have "(slot_offset pick i + sectors_needed blob) * SECTOR_BYTES \<le> length ?rb"
    unfolding length_rebuilt_bytes slot_offset_Suc ss by (rule mult_le_mono1)
  then have e: "?start + sectors_needed blob * SECTOR_BYTES \<le> length ?rb"
    by (simp add: add_mult_distrib)
  have cov: "length blob \<le> sectors_needed blob * SECTOR_BYTES" by (rule sectors_needed_covers)
  have lenrb: "?start + length blob \<le> length ?rb" using e cov by linarith
  have whole: "slice ?rb ?start (?start + length blob) = blob"
  proof -
    have "slice ?rb ?start (?start + length blob) = take (length blob) (drop ?start ?rb)"
      by (simp add: slice_def drop_take)
    with at show ?thesis by simp
  qed
  have s4: "slice ?rb ?start (?start + 4) = take 4 blob"
  proof -
    have "take 4 (slice ?rb ?start (?start + length blob)) = slice ?rb ?start (?start + 4)"
      by (rule take_slice) (use lb in simp)
    with whole show ?thesis by simp
  qed
  have sl: "slice ?rb ?start (?start + 4 + ?L) = blob"
    using whole lb(1) by (simp add: add.assoc)
  have pos: "slot_offset pick i \<noteq> 0" "sectors_needed blob \<noteq> 0"
    using slot_offset_ge2 [of pick i] sectors_needed_pos [of blob] by auto
  have five: "\<not> ?start + 5 > length ?rb" using lenrb lb by linarith
  have endok: "\<not> ?start + sectors_needed blob * SECTOR_BYTES > length ?rb" using e by linarith
  have lenok: "\<not> ?start + 4 + ?L > length ?rb" using lenrb lb by linarith
  show ?thesis
    unfolding get_chunk_blob_unfold s4 sl
    using pos five endok lenok lb(2) by simp
qed

lemma ceil_div_le_iff: "((n + 4095) div 4096 \<le> (s::nat)) = (n \<le> s * 4096)"
proof
  assume "(n + 4095) div 4096 \<le> s"
  then have "(n + 4095) div 4096 * 4096 \<le> s * 4096" by simp
  moreover have "n + 4095 < (n + 4095) div 4096 * 4096 + 4096"
    using mod_less_divisor [of 4096 "n + 4095"] div_mult_mod_eq [of "n + 4095" 4096]
    by linarith
  ultimately show "n \<le> s * 4096" by linarith
next
  assume "n \<le> s * 4096"
  then have "n + 4095 < (s + 1) * 4096" by simp
  then have "(n + 4095) div 4096 < s + 1"
    by (simp add: less_mult_imp_div_less)
  then show "(n + 4095) div 4096 \<le> s" by simp
qed

lemma sectors_needed_least:
  "(sectors_needed blob \<le> s) = (1 \<le> s \<and> length blob \<le> s * SECTOR_BYTES)"
  unfolding sectors_needed_def SECTOR_BYTES_def
  by (simp add: ceil_div_le_iff)

lemma rebuild_region_cases:
  assumes rl: "read_locations original = Inr locs"
    and pick: "pick_blob original updated now_ts locs (read_timestamps original) = pick"
  shows "(if \<exists>i<1024. 255 < slot_sectors pick i
          then \<exists>i<1024. 255 < slot_sectors pick i \<and>
                 rebuild_region original updated now_ts = Inl (ChunkTooLarge (slot_sectors pick i))
          else if \<exists>i<1024. \<not> ts_entry pick i < 256 ^ 4
          then rebuild_region original updated now_ts = Inl OverflowError
          else rebuild_region original updated now_ts = Inr (rebuilt_bytes pick))"
proof (cases "\<exists>i<1024. 255 < slot_sectors pick i")
  case True
  define P where "P i \<longleftrightarrow> i < 1024 \<and> 255 < slot_sectors pick i" for i
  from True have "\<exists>i. P i" by (auto simp: P_def)
  then obtain i where i: "P i" and least: "\<And>j. j < i \<Longrightarrow> \<not> P j"
    using exists_least_iff [of P] by auto
  have "\<And>j. j < i \<Longrightarrow> slot_sectors pick j \<le> 255"
    using least i by (auto simp: P_def not_less)
  with rebuild_region_too_large [OF rl pick, of i] i
  have "rebuild_region original updated now_ts = Inl (ChunkTooLarge (slot_sectors pick i))"
    by (auto simp: P_def)
  with i True show ?thesis by (auto simp: P_def)
next
  case False
  have small: "slot_sectors pick i \<le> 255" if "i < 1024" for i
    using False that by (meson not_less)
  show ?thesis
  proof (cases "\<exists>i<1024. \<not> ts_entry pick i < 256 ^ 4")
    case True
    then obtain i where "i < 1024" "\<not> ts_entry pick i < 256 ^ 4" by blast
    from rebuild_region_ts_overflow [OF rl pick small this] True False show ?thesis by simp
  next
    case nt: False
    then have "\<And>i. i < 1024 \<Longrightarrow> ts_entry pick i < 256 ^ 4" by blast
    from rebuild_region_ok [OF rl pick small this] nt False show ?thesis by simp
  qed
qed

lemma rebuild_region_InrD:
  assumes rl: "read_locations original = Inr locs"
    and pick: "pick_blob original updated now_ts locs (read_timestamps original) = pick"
    and ok: "rebuild_region original updated now_ts = Inr outb"
  shows "outb = rebuilt_bytes pick \<and> (\<forall>i<1024. slot_sectors pick i \<le> 255)
         \<and> (\<forall>i<1024. ts_entry pick i < 256 ^ 4)"
proof -
  have a: "\<not> (\<exists>i<1024. 255 < slot_sectors pick i)"
    using rebuild_region_cases [OF rl pick] ok by (auto split: if_splits)
  then have b: "\<not> (\<exists>i<1024. \<not> ts_entry pick i < 256 ^ 4)"
    using rebuild_region_cases [OF rl pick] ok by (simp split: if_splits)
  from a b have "rebuild_region original updated now_ts = Inr (rebuilt_bytes pick)"
    using rebuild_region_cases [OF rl pick] by (simp split: if_splits)
  with ok have "outb = rebuilt_bytes pick" by simp
  moreover from a have "\<forall>i<1024. slot_sectors pick i \<le> 255" by (meson not_less)
  moreover from b have "\<forall>i<1024. ts_entry pick i < 256 ^ 4" by blast
  ultimately show ?thesis by blast
qed

section \<open>The rebuilt region\<close>

lemma rebuild_region_reads:
  assumes "rebuild_region original updated now_ts = Inr outb"
  obtains locs where "read_locations original = Inr locs"
  using assms by (cases "read_locations original") (auto simp: rebuild_region_def)

lemma loc_entry_present_iff:
  "(fst (loc_entry pick i) \<noteq> 0 \<and> snd (loc_entry pick i) \<noteq> 0) = (pick i \<noteq> None)"
proof (cases "pick i")
  case None
  then show ?thesis by (simp add: loc_entry_def)
next
  case (Some p)
  obtain blob t where p: "p = (blob, t)" by (cases p)
  have "2 \<le> slot_offset pick i" "1 \<le> sectors_needed blob"
    by (rule slot_offset_ge2, rule sectors_needed_pos)
  with Some p show ?thesis by (simp add: loc_entry_def)
qed

lemma loc_entry_None: "pick i = None \<Longrightarrow> loc_entry pick i = (0, 0)"
  by (simp add: loc_entry_def)

lemma loc_entry_Some:
  "pick i = Some (blob, t) \<Longrightarrow> loc_entry pick i = (slot_offset pick i, sectors_needed blob)"
  by (simp add: loc_entry_def)

lemma be_digits_3_0: "be_digits 3 0 = [0, 0, 0]"
proof -
  have "be_digits (Suc (Suc (Suc 0))) 0 = [0, 0, 0]" by simp
  then show ?thesis by (simp only: numeral_3_eq_3)
qed

lemma be_digits_4_0: "be_digits 4 0 = [0, 0, 0, 0]"
proof -
  have "be_digits (Suc (Suc (Suc (Suc 0)))) 0 = [0, 0, 0, 0]" by simp
  moreover have "(4 :: nat) = Suc (Suc (Suc (Suc 0)))" by simp
  ultimately show ?thesis by (simp only:)
qed

lemma enc_zero: "enc_loc (0, 0) = [0, 0, 0, 0]" "enc_ts 0 = [0, 0, 0, 0]"
  by (simp_all add: enc_loc_def enc_ts_def be_digits_3_0 be_digits_4_0)

lemma slice_take_drop: "slice xs i (i + k) = take k (drop i xs)"
  by (simp add: slice_def drop_take)

lemma rebuilt_blob_slice:
  assumes "i < 1024" and "pick i = Some (blob, t)"
  shows "slice (rebuilt_bytes pick) (slot_offset pick i * SECTOR_BYTES)
           (slot_offset pick i * SECTOR_BYTES + length blob) = blob"
  unfolding slice_take_drop using assms by (rule rebuilt_blob_at)

lemma loc_entry_in_bounds:
  assumes "i < 1024"
  shows "(fst (loc_entry pick i) + snd (loc_entry pick i)) * SECTOR_BYTES
           \<le> length (rebuilt_bytes pick)"
proof (cases "pick i")
  case None
  then show ?thesis by (simp add: loc_entry_def)
next
  case (Some p)
  then have "fst (loc_entry pick i) + snd (loc_entry pick i) = slot_offset pick (Suc i)"
    by (cases p) (simp add: loc_entry_def slot_offset_Suc slot_sectors_def)
  moreover have "slot_offset pick (Suc i) \<le> slot_offset pick 1024"
    using assms by (intro slot_offset_mono) simp
  ultimately show ?thesis
    unfolding length_rebuilt_bytes by simp
qed

lemma loc_entry_ordered:
  assumes "i < j" and "pick i \<noteq> None" and "pick j \<noteq> None"
  shows "fst (loc_entry pick i) + snd (loc_entry pick i) \<le> fst (loc_entry pick j)"
proof -
  from assms(2) have "fst (loc_entry pick i) + snd (loc_entry pick i) = slot_offset pick (Suc i)"
    by (auto simp: loc_entry_def slot_offset_Suc slot_sectors_def)
  moreover from assms(3) have "fst (loc_entry pick j) = slot_offset pick j"
    by (auto simp: loc_entry_def)
  moreover have "slot_offset pick (Suc i) \<le> slot_offset pick j"
    using assms(1) by (intro slot_offset_mono) simp
  ultimately show ?thesis by simp
qed

lemma slot_sectors_large:
  "(255 < slot_sectors pick i) = (\<exists>blob t. pick i = Some (blob, t) \<and> 255 < sectors_needed blob)"
  by (cases "pick i") (auto simp: slot_sectors_def)

lemma too_large_iff:
  "(\<exists>i<1024. 255 < slot_sectors pick i)
     = (\<exists>i<1024. \<exists>blob t. pick i = Some (blob, t) \<and> 255 < sectors_needed blob)"
  by (simp only: slot_sectors_large)

text \<open>
  C4. For every input region whose location table can be read and every \<open>updated_blobs\<close>,
  with \<open>pick\<close> the blob the rebuild loop settles on for each slot: the rebuild fails with
  a chunk-too-large error exactly when some emitted blob needs more than 255 sectors, where
  the sectors needed by a blob are the least \<open>s \<ge> 1\<close> with \<open>len(blob) \<le> s * 4096\<close>, that is
  \<open>max(1, ceil(len(blob) / 4096))\<close>. When the rebuild returns, the location table of the
  output can be read; every emitted slot has the entry (sector 2 plus the sectors of the
  emitted slots of smaller index, sectors needed) and the output holds its blob there; every
  slot that is not emitted has all-zero entries in both tables; every present entry has
  offset at least 2 and ends within the output; and of two present entries the one of
  smaller index ends before the other starts.
\<close>

theorem rebuild_region_layout:
  assumes rl: "read_locations original = Inr locs"
    and pick: "pick_blob original updated now_ts locs (read_timestamps original) = pick"
  shows "((\<exists>n. rebuild_region original updated now_ts = Inl (ChunkTooLarge n))
            = (\<exists>i<1024. \<exists>blob t. pick i = Some (blob, t) \<and> 255 < sectors_needed blob))
       \<and> (\<forall>blob s. (sectors_needed blob \<le> s) = (1 \<le> s \<and> length blob \<le> s * 4096))
       \<and> (rebuild_region original updated now_ts = Inr outb \<longrightarrow>
            (\<exists>locs'. read_locations outb = Inr locs' \<and> length locs' = 1024
               \<and> (\<forall>i<1024. \<forall>blob t. pick i = Some (blob, t) \<longrightarrow>
                     locs' ! i = (slot_offset pick i, sectors_needed blob)
                     \<and> slice outb (slot_offset pick i * 4096)
                          (slot_offset pick i * 4096 + length blob) = blob)
               \<and> (\<forall>i<1024. pick i = None \<longrightarrow>
                     locs' ! i = (0, 0)
                     \<and> slice outb (i * 4) (i * 4 + 4) = [0, 0, 0, 0]
                     \<and> slice outb (4096 + i * 4) (4096 + i * 4 + 4) = [0, 0, 0, 0])
               \<and> (\<forall>i<1024. fst (locs' ! i) \<noteq> 0 \<and> snd (locs' ! i) \<noteq> 0 \<longrightarrow>
                     2 \<le> fst (locs' ! i)
                     \<and> (fst (locs' ! i) + snd (locs' ! i)) * 4096 \<le> length outb)
               \<and> (\<forall>i<1024. \<forall>j<1024. i < j
                     \<and> fst (locs' ! i) \<noteq> 0 \<and> snd (locs' ! i) \<noteq> 0
                     \<and> fst (locs' ! j) \<noteq> 0 \<and> snd (locs' ! j) \<noteq> 0 \<longrightarrow>
                     fst (locs' ! i) + snd (locs' ! i) \<le> fst (locs' ! j))))"
proof (intro conjI impI)
  show "(\<exists>n. rebuild_region original updated now_ts = Inl (ChunkTooLarge n))
          = (\<exists>i<1024. \<exists>blob t. pick i = Some (blob, t) \<and> 255 < sectors_needed blob)"
  proof
    assume l: "\<exists>n. rebuild_region original updated now_ts = Inl (ChunkTooLarge n)"
    show "\<exists>i<1024. \<exists>blob t. pick i = Some (blob, t) \<and> 255 < sectors_needed blob"
    proof (rule ccontr)
      assume "\<not> (\<exists>i<1024. \<exists>blob t. pick i = Some (blob, t) \<and> 255 < sectors_needed blob)"
      then have nl: "\<not> (\<exists>i<1024. 255 < slot_sectors pick i)"
        using too_large_iff [of pick] by blast
      have "rebuild_region original updated now_ts = Inl OverflowError
            \<or> rebuild_region original updated now_ts = Inr (rebuilt_bytes pick)"
        using rebuild_region_cases [OF rl pick] unfolding if_not_P [OF nl]
        by (cases "\<exists>i<1024. \<not> ts_entry pick i < 256 ^ 4") simp_all
      with l show False by auto
    qed
  next
    assume "\<exists>i<1024. \<exists>blob t. pick i = Some (blob, t) \<and> 255 < sectors_needed blob"
    then have yl: "\<exists>i<1024. 255 < slot_sectors pick i"
      using too_large_iff [of pick] by blast
    from rebuild_region_cases [OF rl pick, unfolded if_P [OF yl]]
    show "\<exists>n. rebuild_region original updated now_ts = Inl (ChunkTooLarge n)" by blast
  qed
next
  show "\<forall>blob s. (sectors_needed blob \<le> s) = (1 \<le> s \<and> length blob \<le> s * 4096)"
    using sectors_needed_least by (simp add: SECTOR_BYTES_def)
next
  assume ok: "rebuild_region original updated now_ts = Inr outb"
  from rebuild_region_InrD [OF rl pick ok] have
    outb: "outb = rebuilt_bytes pick" and
    small: "\<And>i. i < 1024 \<Longrightarrow> slot_sectors pick i \<le> 255" and
    tsok: "\<And>i. i < 1024 \<Longrightarrow> ts_entry pick i < 256 ^ 4" by auto
  let ?locs = "map (loc_entry pick) [0..<1024]"
  have r: "read_locations outb = Inr ?locs"
    unfolding outb using small by (rule read_locations_rebuilt)
  have nth: "?locs ! i = loc_entry pick i" if "i < 1024" for i using that by simp
  have a: "\<forall>i<1024. \<forall>blob t. pick i = Some (blob, t) \<longrightarrow>
             ?locs ! i = (slot_offset pick i, sectors_needed blob)
             \<and> slice outb (slot_offset pick i * 4096)
                  (slot_offset pick i * 4096 + length blob) = blob"
  proof (intro allI impI)
    fix i blob t assume i: "i < 1024" and p: "pick i = Some (blob, t)"
    have "?locs ! i = loc_entry pick i" using i by (simp add: nth)
    with loc_entry_Some [of pick i blob t] p rebuilt_blob_slice [of i pick blob t] i
    show "?locs ! i = (slot_offset pick i, sectors_needed blob)
             \<and> slice outb (slot_offset pick i * 4096)
                  (slot_offset pick i * 4096 + length blob) = blob"
      by (simp add: outb SECTOR_BYTES_def)
  qed
  have b: "\<forall>i<1024. pick i = None \<longrightarrow>
             ?locs ! i = (0, 0)
             \<and> slice outb (i * 4) (i * 4 + 4) = [0, 0, 0, 0]
             \<and> slice outb (4096 + i * 4) (4096 + i * 4 + 4) = [0, 0, 0, 0]"
  proof (intro allI impI)
    fix i assume i: "i < 1024" and n: "pick i = None"
    have "slice outb (i * 4) (i * 4 + 4) = enc_loc (loc_entry pick i)"
      unfolding slice_take_drop outb using i by (rule rebuilt_loc_block)
    moreover have "slice outb (4096 + i * 4) (4096 + i * 4 + 4) = enc_ts (ts_entry pick i)"
      unfolding slice_take_drop outb using i by (rule rebuilt_ts_block)
    ultimately show "?locs ! i = (0, 0)
             \<and> slice outb (i * 4) (i * 4 + 4) = [0, 0, 0, 0]
             \<and> slice outb (4096 + i * 4) (4096 + i * 4 + 4) = [0, 0, 0, 0]"
      using i n by (simp add: loc_entry_None ts_entry_def enc_zero)
  qed
  have c: "\<forall>i<1024. fst (?locs ! i) \<noteq> 0 \<and> snd (?locs ! i) \<noteq> 0 \<longrightarrow>
             2 \<le> fst (?locs ! i)
             \<and> (fst (?locs ! i) + snd (?locs ! i)) * 4096 \<le> length outb"
  proof (intro allI impI)
    fix i assume i: "i < 1024"
      and p: "fst (?locs ! i) \<noteq> 0 \<and> snd (?locs ! i) \<noteq> 0"
    have ni: "?locs ! i = loc_entry pick i" using i by (simp add: nth)
    from p have "pick i \<noteq> None"
      unfolding ni using loc_entry_present_iff [of pick i] by blast
    then have "2 \<le> fst (loc_entry pick i)"
      using slot_offset_ge2 [of pick i] by (auto simp: loc_entry_def)
    with loc_entry_in_bounds [OF i, of pick]
    show "2 \<le> fst (?locs ! i) \<and> (fst (?locs ! i) + snd (?locs ! i)) * 4096 \<le> length outb"
      unfolding ni by (simp add: outb SECTOR_BYTES_def)
  qed
  have d: "\<forall>i<1024. \<forall>j<1024. i < j
             \<and> fst (?locs ! i) \<noteq> 0 \<and> snd (?locs ! i) \<noteq> 0
             \<and> fst (?locs ! j) \<noteq> 0 \<and> snd (?locs ! j) \<noteq> 0 \<longrightarrow>
             fst (?locs ! i) + snd (?locs ! i) \<le> fst (?locs ! j)"
  proof (intro allI impI)
    fix i j assume i: "i < 1024" and j: "j < 1024"
      and h: "i < j \<and> fst (?locs ! i) \<noteq> 0 \<and> snd (?locs ! i) \<noteq> 0
              \<and> fst (?locs ! j) \<noteq> 0 \<and> snd (?locs ! j) \<noteq> 0"
    have ni: "?locs ! i = loc_entry pick i" and nj: "?locs ! j = loc_entry pick j"
      using i j by (simp_all add: nth)
    from h have "pick i \<noteq> None" "pick j \<noteq> None"
      unfolding ni nj
      using loc_entry_present_iff [of pick i] loc_entry_present_iff [of pick j]
      by blast+
    with h loc_entry_ordered [of i j pick]
    show "fst (?locs ! i) + snd (?locs ! i) \<le> fst (?locs ! j)"
      unfolding ni nj by blast
  qed
  from r a b c d
  show "\<exists>locs'. read_locations outb = Inr locs' \<and> length locs' = 1024
               \<and> (\<forall>i<1024. \<forall>blob t. pick i = Some (blob, t) \<longrightarrow>
                     locs' ! i = (slot_offset pick i, sectors_needed blob)
                     \<and> slice outb (slot_offset pick i * 4096)
                          (slot_offset pick i * 4096 + length blob) = blob)
               \<and> (\<forall>i<1024. pick i = None \<longrightarrow>
                     locs' ! i = (0, 0)
                     \<and> slice outb (i * 4) (i * 4 + 4) = [0, 0, 0, 0]
                     \<and> slice outb (4096 + i * 4) (4096 + i * 4 + 4) = [0, 0, 0, 0])
               \<and> (\<forall>i<1024. fst (locs' ! i) \<noteq> 0 \<and> snd (locs' ! i) \<noteq> 0 \<longrightarrow>
                     2 \<le> fst (locs' ! i)
                     \<and> (fst (locs' ! i) + snd (locs' ! i)) * 4096 \<le> length outb)
               \<and> (\<forall>i<1024. \<forall>j<1024. i < j
                     \<and> fst (locs' ! i) \<noteq> 0 \<and> snd (locs' ! i) \<noteq> 0
                     \<and> fst (locs' ! j) \<noteq> 0 \<and> snd (locs' ! j) \<noteq> 0 \<longrightarrow>
                     fst (locs' ! i) + snd (locs' ! i) \<le> fst (locs' ! j))"
  proof (intro exI [of _ ?locs] conjI)
    show "length ?locs = 1024" by simp
  qed (rule r a b c d)+
qed

text \<open>
  C10. When the rebuild returns, the output is 8192 bytes plus 4096 bytes for every sector
  counted in its location table, so its length is a multiple of 4096.
\<close>

theorem rebuild_region_length:
  assumes ok: "rebuild_region original updated now_ts = Inr outb"
    and r: "read_locations outb = Inr locs'"
  shows "length outb = 8192 + 4096 * sum_list (map snd locs') \<and> 4096 dvd length outb"
proof -
  from ok obtain locs where rl: "read_locations original = Inr locs"
    by (rule rebuild_region_reads)
  define pick where "pick = pick_blob original updated now_ts locs (read_timestamps original)"
  then have pick: "pick_blob original updated now_ts locs (read_timestamps original) = pick"
    by simp
  from rebuild_region_InrD [OF rl pick ok] have
    outb: "outb = rebuilt_bytes pick" and
    small: "\<And>i. i < 1024 \<Longrightarrow> slot_sectors pick i \<le> 255" by auto
  have "read_locations outb = Inr (map (loc_entry pick) [0..<1024])"
    unfolding outb using small by (rule read_locations_rebuilt)
  with r have locs': "locs' = map (loc_entry pick) [0..<1024]" by simp
  have "map snd locs' = map (slot_sectors pick) [0..<1024]"
    unfolding locs' by (simp add: slot_sectors_loc_entry)
  then have "slot_offset pick 1024 = 2 + sum_list (map snd locs')"
    by (simp add: slot_offset_def)
  then have "length outb = (2 + sum_list (map snd locs')) * 4096"
    unfolding outb length_rebuilt_bytes by (simp add: SECTOR_BYTES_def)
  then show ?thesis by simp
qed



lemma process_chunk_cases:
  "process_chunk lib M y_min y_max F original ptr (rep, upd) =
     (case get_chunk_blob original (off_sectors ptr) (sector_count ptr) of
        None \<Rightarrow> (rep, upd)
      | Some blob \<Rightarrow>
          (case try_chunk lib M y_min y_max F blob (chunk_blob_compression_type blob) of
             Inl e \<Rightarrow> (rep\<lparr>processed := processed rep + 1,
                           parse_errors := parse_errors rep + 1\<rparr>, upd)
           | Inr None \<Rightarrow> (rep\<lparr>processed := processed rep + 1\<rparr>, upd)
           | Inr (Some (new_blob, ec)) \<Rightarrow>
               (rep\<lparr>processed := processed rep + 1, changed := changed rep + 1,
                    entries_changed := entries_changed rep + ec\<rparr>,
                upd(idx ptr \<mapsto> (new_blob, True)))))"
  by (simp add: process_chunk_def Let_def split: option.splits sum.splits prod.splits)

lemma process_chunk_updated:
  "snd (process_chunk lib M y_min y_max F original ptr (rep, upd)) =
     (case rewritten lib M y_min y_max F original (loc_of ptr) of
        None \<Rightarrow> upd
      | Some (new_blob, ec) \<Rightarrow> upd(idx ptr \<mapsto> (new_blob, True)))"
  by (simp add: process_chunk_cases rewritten_def split: option.splits sum.splits prod.splits)

lemma process_chunk_errors:
  "parse_errors (fst (process_chunk lib M y_min y_max F original ptr (rep, upd))) =
     parse_errors rep + (if parse_failed lib M y_min y_max F original (loc_of ptr) then 1 else 0)"
  by (simp add: process_chunk_cases parse_failed_def split: option.splits sum.splits prod.splits)

lemma process_chunk_changed:
  "changed (fst (process_chunk lib M y_min y_max F original ptr (rep, upd))) =
     changed rep + (if rewritten lib M y_min y_max F original (loc_of ptr) = None then 0 else 1)"
  by (simp add: process_chunk_cases rewritten_def split: option.splits sum.splits prod.splits)

lemma fold_process_errors:
  "parse_errors (fst (fold (process_chunk lib M y_min y_max F original) ps st)) =
     parse_errors (fst st)
       + length (filter (\<lambda>p. parse_failed lib M y_min y_max F original (loc_of p)) ps)"
proof (induction ps arbitrary: st)
  case Nil
  then show ?case by simp
next
  case (Cons p ps)
  obtain rep upd where st: "st = (rep, upd)" by (cases st)
  show ?case
    unfolding st using Cons [of "process_chunk lib M y_min y_max F original p (rep, upd)"]
      process_chunk_errors [of lib M y_min y_max F original p rep upd]
    by simp
qed

lemma fold_process_changed:
  "changed (fst (fold (process_chunk lib M y_min y_max F original) ps st)) =
     changed (fst st)
       + length (filter (\<lambda>p. rewritten lib M y_min y_max F original (loc_of p) \<noteq> None) ps)"
proof (induction ps arbitrary: st)
  case Nil
  then show ?case by simp
next
  case (Cons p ps)
  obtain rep upd where st: "st = (rep, upd)" by (cases st)
  show ?case
    unfolding st using Cons [of "process_chunk lib M y_min y_max F original p (rep, upd)"]
      process_chunk_changed [of lib M y_min y_max F original p rep upd]
    by simp
qed

lemma fold_process_other:
  "i \<notin> idx ` set ps \<Longrightarrow>
   snd (fold (process_chunk lib M y_min y_max F original) ps st) i = snd st i"
proof (induction ps arbitrary: st)
  case Nil
  then show ?case by simp
next
  case (Cons p ps)
  obtain rep upd where st: "st = (rep, upd)" by (cases st)
  from Cons.prems have ne: "idx p \<noteq> i" and rest: "i \<notin> idx ` set ps" by auto
  have "snd (process_chunk lib M y_min y_max F original p (rep, upd)) i = upd i"
    using ne unfolding process_chunk_updated by (simp split: option.splits prod.splits)
  with Cons.IH [OF rest, of "process_chunk lib M y_min y_max F original p (rep, upd)"] st
  show ?case by simp
qed

lemma fold_process_slot:
  assumes "distinct (map idx ps)" and "p \<in> set ps"
  shows "snd (fold (process_chunk lib M y_min y_max F original) ps st) (idx p) =
           (case rewritten lib M y_min y_max F original (loc_of p) of
              None \<Rightarrow> snd st (idx p)
            | Some (new_blob, ec) \<Rightarrow> Some (new_blob, True))"
  using assms
proof (induction ps arbitrary: st)
  case Nil
  then show ?case by simp
next
  case (Cons q ps)
  obtain rep upd where st: "st = (rep, upd)" by (cases st)
  let ?st1 = "process_chunk lib M y_min y_max F original q (rep, upd)"
  show ?case
  proof (cases "p = q")
    case True
    with Cons.prems have "idx p \<notin> idx ` set ps" by auto
    from fold_process_other [OF this, of lib M y_min y_max F original ?st1] True st
    show ?thesis
      by (simp add: process_chunk_updated split: option.splits prod.splits)
  next
    case False
    with Cons.prems have p: "p \<in> set ps" and d: "distinct (map idx ps)"
      and ne: "idx q \<noteq> idx p" by auto
    have "snd ?st1 (idx p) = upd (idx p)"
      using ne unfolding process_chunk_updated by (simp split: option.splits prod.splits)
    with Cons.IH [OF d p, of ?st1] st show ?thesis
      by (simp split: option.splits prod.splits)
  qed
qed

lemma enumerate_nth: "enumerate 0 xs = map (\<lambda>i. (i, xs ! i)) [0..<length xs]"
  by (rule nth_equalityI) (simp_all add: nth_enumerate_eq)

lemma iter_present_chunks_ptrs:
  assumes "read_locations original = Inr locs"
  shows "iter_present_chunks original = Inr (present_ptrs locs)"
  using assms
  by (simp add: iter_present_chunks_def present_ptrs_def enumerate_nth filter_map o_def
      slot_present_def case_prod_unfold)

lemma present_ptrs_idx: "map idx (present_ptrs locs) = filter (\<lambda>i. slot_present (locs ! i)) [0..<length locs]"
  by (simp add: present_ptrs_def o_def)

lemma present_ptrs_distinct: "distinct (map idx (present_ptrs locs))"
  by (simp add: present_ptrs_idx)

lemma present_ptrs_mem:
  assumes "i < length locs" and "slot_present (locs ! i)"
  shows "\<lparr>idx = i, off_sectors = fst (locs ! i), sector_count = snd (locs ! i)\<rparr>
           \<in> set (present_ptrs locs)"
  using assms by (auto simp: present_ptrs_def)

lemma process_chunks_updated:
  "snd (process_chunks lib M y_min y_max F original (present_ptrs locs))
     = updated_of lib M y_min y_max F original locs"
proof
  fix i
  let ?ps = "present_ptrs locs"
  let ?st0 = "(\<lparr>processed = 0, changed = 0, entries_changed = 0, parse_errors = 0\<rparr>,
               Map.empty :: nat \<rightharpoonup> bytes \<times> bool)"
  show "snd (process_chunks lib M y_min y_max F original ?ps) i
          = updated_of lib M y_min y_max F original locs i"
  proof (cases "i < length locs \<and> slot_present (locs ! i)")
    case True
    let ?p = "\<lparr>idx = i, off_sectors = fst (locs ! i), sector_count = snd (locs ! i)\<rparr>"
    have "?p \<in> set ?ps" using True by (intro present_ptrs_mem) auto
    from fold_process_slot [OF present_ptrs_distinct this, of lib M y_min y_max F original ?st0]
    show ?thesis using True
      by (simp add: process_chunks_def updated_of_def split: option.splits prod.splits)
  next
    case False
    have "idx ` set ?ps = set (map idx ?ps)" by simp
    also have "\<dots> = {j \<in> set [0..<length locs]. slot_present (locs ! j)}"
      unfolding present_ptrs_idx by (rule set_filter)
    finally have "i \<notin> idx ` set ?ps" using False by simp
    from fold_process_other [OF this, of lib M y_min y_max F original ?st0] False
    show ?thesis by (auto simp: process_chunks_def updated_of_def)
  qed
qed

lemma length_filter_map: "length (filter P (map f xs)) = length (filter (P \<circ> f) xs)"
  by (simp add: filter_map)

lemma process_chunks_errors:
  "parse_errors (fst (process_chunks lib M y_min y_max F original (present_ptrs locs)))
     = length (filter (\<lambda>i. slot_present (locs ! i)
                          \<and> parse_failed lib M y_min y_max F original (locs ! i))
                 [0..<length locs])"
  unfolding process_chunks_def fold_process_errors present_ptrs_def length_filter_map
  by (simp add: o_def conj_commute)

lemma process_chunks_changed:
  "changed (fst (process_chunks lib M y_min y_max F original (present_ptrs locs)))
     = length (filter (\<lambda>i. slot_present (locs ! i)
                          \<and> rewritten lib M y_min y_max F original (locs ! i) \<noteq> None)
                 [0..<length locs])"
  unfolding process_chunks_def fold_process_changed present_ptrs_def length_filter_map
  by (simp add: o_def conj_commute)

lemma decompress_InrD:
  assumes "decompress_chunk_nbt lib blob = Inr raw"
  shows "5 \<le> length blob \<and> unat (blob ! 4) \<in> {1, 2, 3}"
proof -
  have a: "5 \<le> length blob"
    using assms by (cases "length blob < 5") (simp_all add: decompress_chunk_nbt_def)
  have "unat (blob ! 4) = 1 \<or> unat (blob ! 4) = 2 \<or> unat (blob ! 4) = 3"
  proof (rule ccontr)
    assume "\<not> ?thesis"
    then have "\<exists>e. decompress_chunk_nbt lib blob = Inl e"
      using a by (simp add: decompress_chunk_nbt_def Let_def split: sum.splits)
    with assms show False by auto
  qed
  with a show ?thesis by auto
qed

lemma compress_InrD:
  assumes "compress_chunk_nbt lib raw c = Inr nb" and "c \<in> {1, 2, 3}"
  shows "blob_ok nb \<and> nb ! 4 = word_of_nat c"
proof -
  define payload where
    "payload = (if c = 1 then gzip_compress lib raw else if c = 2 then zlib_compress lib raw
                else raw)"
  have c: "compress_chunk_nbt lib raw c =
             (case to_bytes_big (length payload + 1) 4 StructError of
                Inl e \<Rightarrow> Inl e
              | Inr hdr \<Rightarrow> Inr (hdr @ [word_of_nat c] @ payload))"
    using assms(2) by (auto simp: compress_chunk_nbt_def payload_def Let_def cong: sum.case_cong)
  with assms(1) have lt: "length payload + 1 < 256 ^ 4"
    and nb: "nb = be_digits 4 (length payload + 1) @ [word_of_nat c] @ payload"
    by (auto simp: to_bytes_big_def split: if_splits)
  have "take 4 nb = be_digits 4 (length payload + 1)" unfolding nb by simp
  then have "from_bytes_big (take 4 nb) = length payload + 1"
    using lt by (simp add: from_bytes_be_digits)
  moreover have "length nb = 4 + (length payload + 1)" unfolding nb by simp
  moreover have "nb ! 4 = word_of_nat c" unfolding nb by (simp add: nth_append)
  ultimately show ?thesis by (simp add: blob_ok_def)
qed

lemma try_chunk_rewrites:
  assumes "try_chunk lib M y_min y_max F blob (chunk_blob_compression_type blob)
             = Inr (Some (nb, ec))"
  shows "5 \<le> length blob \<and> unat (blob ! 4) \<in> {1, 2, 3} \<and> blob_ok nb \<and> nb ! 4 = blob ! 4"
proof -
  from assms obtain raw where d: "decompress_chunk_nbt lib blob = Inr raw"
    by (cases "decompress_chunk_nbt lib blob") (auto simp: try_chunk_def)
  from decompress_InrD [OF d] have a: "5 \<le> length blob" "unat (blob ! 4) \<in> {1, 2, 3}"
    by auto
  then have ct: "chunk_blob_compression_type blob = unat (blob ! 4)"
    by (simp add: chunk_blob_compression_type_def)
  from assms d obtain new_raw where
    "compress_chunk_nbt lib new_raw (unat (blob ! 4)) = Inr nb"
    unfolding ct
    by (auto simp: try_chunk_def split: option.splits sum.splits prod.splits if_splits)
  from compress_InrD [OF this a(2)] a show ?thesis by simp
qed

lemma process_region_file_InrD:
  assumes run: "process_region_file lib M y_min y_max F dry_run make_backup backup_exists
                  now_ts original = Inr res"
    and nr: "new_region res = Some outb"
    and rl: "read_locations original = Inr locs"
  shows "rebuild_region original (updated_of lib M y_min y_max F original locs) now_ts = Inr outb
         \<and> counters_of res
             = fst (process_chunks lib M y_min y_max F original (present_ptrs locs))"
proof -
  obtain rep upd where
    pc: "process_chunks lib M y_min y_max F original (present_ptrs locs) = (rep, upd)"
    by (cases "process_chunks lib M y_min y_max F original (present_ptrs locs)")
  then have upd: "upd = updated_of lib M y_min y_max F original locs"
    using process_chunks_updated [of lib M y_min y_max F original locs] by simp
  from run nr pc show ?thesis
    unfolding upd
    by (auto simp: process_region_file_def iter_present_chunks_ptrs [OF rl]
        split: if_splits sum.splits)
qed

lemma pick_updated_of:
  assumes "i < length locs" and "locs ! i = (off, count)" and "off \<noteq> 0" and "count \<noteq> 0"
  shows "pick_blob original (updated_of lib M y_min y_max F original locs) now_ts locs ts i =
           (case get_chunk_blob original off count of
              None \<Rightarrow> None
            | Some blob \<Rightarrow>
                (case try_chunk lib M y_min y_max F blob (chunk_blob_compression_type blob) of
                   Inr (Some (nb, ec)) \<Rightarrow> Some (nb, now_ts)
                 | _ \<Rightarrow> Some (blob, ts ! i)))"
  using assms
  by (simp add: pick_blob_def updated_of_def slot_present_def rewritten_def
      split: option.splits sum.splits prod.splits)

lemma nth_slice: "i + k < j \<Longrightarrow> j \<le> length xs \<Longrightarrow> slice xs i j ! k = xs ! (i + k)"
  by (simp add: slice_def)

lemma rebuilt_slot:
  assumes rl: "read_locations original = Inr locs"
    and ok: "rebuild_region original updated now_ts = Inr outb"
    and i: "i < 1024"
    and pk: "pick_blob original updated now_ts locs (read_timestamps original) i = Some (b, t)"
    and bok: "blob_ok b"
  shows "\<exists>locs'. read_locations outb = Inr locs'
           \<and> fst (locs' ! i) \<noteq> 0 \<and> snd (locs' ! i) \<noteq> 0
           \<and> get_chunk_blob outb (fst (locs' ! i)) (snd (locs' ! i)) = Some b
           \<and> outb ! (fst (locs' ! i) * 4096 + 4) = b ! 4"
proof -
  define pick where "pick = pick_blob original updated now_ts locs (read_timestamps original)"
  then have pick: "pick_blob original updated now_ts locs (read_timestamps original) = pick"
    by simp
  from pk have p: "pick i = Some (b, t)" by (simp add: pick_def)
  from rebuild_region_InrD [OF rl pick ok] have
    outb: "outb = rebuilt_bytes pick" and
    small: "\<And>i. i < 1024 \<Longrightarrow> slot_sectors pick i \<le> 255" by auto
  let ?locs = "map (loc_entry pick) [0..<1024]"
  have r: "read_locations outb = Inr ?locs"
    unfolding outb using small by (rule read_locations_rebuilt)
  have l: "?locs ! i = (slot_offset pick i, sectors_needed b)"
    using i loc_entry_Some [of pick i b t] p by simp
  have pos: "slot_offset pick i \<noteq> 0" "sectors_needed b \<noteq> 0"
    using slot_offset_ge2 [of pick i] sectors_needed_pos [of b] by auto
  have g: "get_chunk_blob outb (slot_offset pick i) (sectors_needed b) = Some b"
    unfolding outb using i p bok by (rule get_chunk_blob_rebuilt)
  have lb: "5 \<le> length b" using bok by (simp add: blob_ok_def)
  have sl: "slice outb (slot_offset pick i * SECTOR_BYTES)
              (slot_offset pick i * SECTOR_BYTES + length b) = b"
    unfolding outb using i p by (rule rebuilt_blob_slice)
  have "(slot_offset pick i + sectors_needed b) * SECTOR_BYTES \<le> length outb"
    using loc_entry_in_bounds [OF i, of pick] loc_entry_Some [of pick i b t] p
    by (simp add: outb)
  then have "slot_offset pick i * SECTOR_BYTES + length b \<le> length outb"
    using sectors_needed_covers [of b] by (simp add: add_mult_distrib)
  then have "slice outb (slot_offset pick i * SECTOR_BYTES)
               (slot_offset pick i * SECTOR_BYTES + length b) ! 4
             = outb ! (slot_offset pick i * SECTOR_BYTES + 4)"
    using lb by (intro nth_slice) simp_all
  with sl have n4: "outb ! (slot_offset pick i * 4096 + 4) = b ! 4"
    by (simp add: SECTOR_BYTES_def)
  show ?thesis
    by (rule exI [of _ ?locs]) (use r l pos g n4 in simp)
qed

lemma rebuilt_absent:
  assumes rl: "read_locations original = Inr locs"
    and ok: "rebuild_region original updated now_ts = Inr outb"
    and i: "i < 1024"
    and pk: "pick_blob original updated now_ts locs (read_timestamps original) i = None"
  shows "(\<exists>locs'. read_locations outb = Inr locs' \<and> locs' ! i = (0, 0))
         \<and> read_timestamps outb ! i = 0"
proof -
  define pick where "pick = pick_blob original updated now_ts locs (read_timestamps original)"
  then have pick: "pick_blob original updated now_ts locs (read_timestamps original) = pick"
    by simp
  from pk have p: "pick i = None" by (simp add: pick_def)
  from rebuild_region_InrD [OF rl pick ok] have
    outb: "outb = rebuilt_bytes pick" and
    small: "\<And>i. i < 1024 \<Longrightarrow> slot_sectors pick i \<le> 255" and
    tsok: "\<And>i. i < 1024 \<Longrightarrow> ts_entry pick i < 256 ^ 4" by auto
  let ?locs = "map (loc_entry pick) [0..<1024]"
  have r: "read_locations outb = Inr ?locs"
    unfolding outb using small by (rule read_locations_rebuilt)
  have l: "?locs ! i = (0, 0)" using i p by (simp add: loc_entry_None)
  have "read_timestamps outb = map (ts_entry pick) [0..<1024]"
    unfolding outb using tsok by (rule read_timestamps_rebuilt)
  with i p have "read_timestamps outb ! i = 0" by (simp add: ts_entry_def)
  with r l show ?thesis by blast
qed

text \<open>
  C3 (amended). When region processing rewrites the file: a present slot whose blob was
  extracted but whose decompression, NBT parse or any later step of the \<open>try\<close> block failed
  is present in the output, and extracting it from the output gives the original blob, byte
  for byte; a present slot whose extraction failed is absent in the output (a zero location
  entry and a zero timestamp); and \<open>parse_errors\<close> counts exactly the present slots that
  were extracted and then failed, so a failed extraction is not counted.
\<close>

theorem failed_chunks_carried:
  assumes run: "process_region_file lib M y_min y_max F dry_run make_backup backup_exists
                  now_ts original = Inr res"
    and nr: "new_region res = Some outb"
    and rl: "read_locations original = Inr locs"
    and i: "i < 1024"
    and li: "locs ! i = (off, count)"
    and present: "off \<noteq> 0" "count \<noteq> 0"
  shows "(\<forall>blob e. get_chunk_blob original off count = Some blob
            \<and> try_chunk lib M y_min y_max F blob (chunk_blob_compression_type blob) = Inl e \<longrightarrow>
            (\<exists>locs'. read_locations outb = Inr locs'
               \<and> fst (locs' ! i) \<noteq> 0 \<and> snd (locs' ! i) \<noteq> 0
               \<and> get_chunk_blob outb (fst (locs' ! i)) (snd (locs' ! i)) = Some blob))
       \<and> (get_chunk_blob original off count = None \<longrightarrow>
            (\<exists>locs'. read_locations outb = Inr locs' \<and> locs' ! i = (0, 0))
            \<and> read_timestamps outb ! i = 0)
       \<and> parse_errors (counters_of res)
            = length (filter (\<lambda>j. slot_present (locs ! j)
                                  \<and> parse_failed lib M y_min y_max F original (locs ! j))
                        [0..<1024])"
proof -
  let ?upd = "updated_of lib M y_min y_max F original locs"
  let ?ts = "read_timestamps original"
  from process_region_file_InrD [OF run nr rl] have
    ok: "rebuild_region original ?upd now_ts = Inr outb" and
    rep: "counters_of res
            = fst (process_chunks lib M y_min y_max F original (present_ptrs locs))"
    by auto
  have len: "length locs = 1024" using read_locations_length [OF rl] by simp
  have il: "i < length locs" using i len by simp
  note pk = pick_updated_of [OF il li present, of original lib M y_min y_max F now_ts ?ts]
  have a: "\<exists>locs'. read_locations outb = Inr locs'
               \<and> fst (locs' ! i) \<noteq> 0 \<and> snd (locs' ! i) \<noteq> 0
               \<and> get_chunk_blob outb (fst (locs' ! i)) (snd (locs' ! i)) = Some blob"
    if g: "get_chunk_blob original off count = Some blob"
      and t: "try_chunk lib M y_min y_max F blob (chunk_blob_compression_type blob) = Inl e"
    for blob e
  proof -
    have "pick_blob original ?upd now_ts locs ?ts i = Some (blob, ?ts ! i)"
      unfolding pk using g t by simp
    from rebuilt_slot [OF rl ok i this get_chunk_blob_ok [OF g]] show ?thesis by blast
  qed
  have b: "(\<exists>locs'. read_locations outb = Inr locs' \<and> locs' ! i = (0, 0))
            \<and> read_timestamps outb ! i = 0"
    if g: "get_chunk_blob original off count = None"
  proof -
    have "pick_blob original ?upd now_ts locs ?ts i = None"
      unfolding pk using g by simp
    from rebuilt_absent [OF rl ok i this] show ?thesis .
  qed
  have c: "parse_errors (counters_of res)
            = length (filter (\<lambda>j. slot_present (locs ! j)
                                  \<and> parse_failed lib M y_min y_max F original (locs ! j))
                        [0..<1024])"
    unfolding rep process_chunks_errors len ..
  from a b c show ?thesis by blast
qed

text \<open>
  C6. When region processing rewrites the file, every chunk it rewrote (extracted, edited
  with a change, recompressed) had a compression tag of 1, 2 or 3 in the input, and the
  output holds the recompressed blob at that slot, its tag byte (the fifth byte of the
  envelope) equal to the tag byte of the input blob.
\<close>

theorem compression_tag_preserved:
  assumes run: "process_region_file lib M y_min y_max F dry_run make_backup backup_exists
                  now_ts original = Inr res"
    and nr: "new_region res = Some outb"
    and rl: "read_locations original = Inr locs"
    and i: "i < 1024"
    and li: "locs ! i = (off, count)"
    and present: "off \<noteq> 0" "count \<noteq> 0"
    and g: "get_chunk_blob original off count = Some blob"
    and t: "try_chunk lib M y_min y_max F blob (chunk_blob_compression_type blob)
              = Inr (Some (new_blob, ec))"
  shows "unat (blob ! 4) \<in> {1, 2, 3}
       \<and> (\<exists>locs'. read_locations outb = Inr locs'
             \<and> fst (locs' ! i) \<noteq> 0 \<and> snd (locs' ! i) \<noteq> 0
             \<and> get_chunk_blob outb (fst (locs' ! i)) (snd (locs' ! i)) = Some new_blob
             \<and> new_blob ! 4 = blob ! 4
             \<and> outb ! (fst (locs' ! i) * 4096 + 4) = blob ! 4)"
proof -
  let ?upd = "updated_of lib M y_min y_max F original locs"
  let ?ts = "read_timestamps original"
  from process_region_file_InrD [OF run nr rl] have
    ok: "rebuild_region original ?upd now_ts = Inr outb" by auto
  have len: "length locs = 1024" using read_locations_length [OF rl] by simp
  have il: "i < length locs" using i len by simp
  from try_chunk_rewrites [OF t] have
    tag: "unat (blob ! 4) \<in> {1, 2, 3}" and bok: "blob_ok new_blob"
    and same: "new_blob ! 4 = blob ! 4" by auto
  have "pick_blob original ?upd now_ts locs ?ts i = Some (new_blob, now_ts)"
    unfolding pick_updated_of [OF il li present] using g t by simp
  from rebuilt_slot [OF rl ok i this bok] tag same show ?thesis by auto
qed

section \<open>The sample region\<close>

text \<open>Reading the tables of the sample region.\<close>

lemma length_sample_region: "length sample_region = 16384"
  by (simp add: sample_region_def)

lemma take3_drop:
  "k + 3 \<le> length xs \<Longrightarrow> take 3 (drop k xs) = [xs ! k, xs ! (k + 1), xs ! (k + 2)]"
  by (auto simp: list_eq_iff_nth_eq nth_Cons less_Suc_eq_0_disj numeral_3_eq_3 ac_simps
      split: nat.splits)

lemma sample_region_zero: "12 \<le> n \<Longrightarrow> n < 4096 \<Longrightarrow> sample_region ! n = 0"
  by (simp add: sample_region_def nth_append)

lemma from_bytes_3: "from_bytes_big [a, b, c] = (unat a * 256 + unat b) * 256 + unat c"
  by (simp add: from_bytes_big_def)

lemma from_bytes_4:
  "from_bytes_big [a, b, c, d] = ((unat a * 256 + unat b) * 256 + unat c) * 256 + unat d"
  by (simp add: from_bytes_big_def)

lemma sample_locs_nth:
  assumes "i < 1024"
  shows "(from_bytes_big (take 3 (drop (i * 4) sample_region)), unat (sample_region ! (i * 4 + 3)))
           = sample_locs ! i"
proof -
  consider "i = 0" | "i = 1" | "i = 2" | "3 \<le> i" by linarith
  then show ?thesis
  proof cases
    case 1
    then show ?thesis by (simp add: sample_region_def sample_locs_def from_bytes_3)
  next
    case 2
    then show ?thesis by (simp add: sample_region_def sample_locs_def from_bytes_3)
  next
    case 3
    then show ?thesis by (simp add: sample_region_def sample_locs_def from_bytes_3)
  next
    case 4
    have "take 3 (drop (i * 4) sample_region)
            = [sample_region ! (i * 4), sample_region ! (i * 4 + 1), sample_region ! (i * 4 + 2)]"
      using assms by (intro take3_drop) (simp add: length_sample_region)
    moreover have "sample_region ! (i * 4) = 0" "sample_region ! (i * 4 + 1) = 0"
      "sample_region ! (i * 4 + 2) = 0" "sample_region ! (i * 4 + 3) = 0"
      using assms 4 by (simp_all add: sample_region_zero)
    moreover have "sample_locs ! i = (0, 0)"
      using assms 4 by (simp add: sample_locs_def nth_append)
    ultimately show ?thesis by (simp add: from_bytes_3)
  qed
qed

lemma read_locations_sample: "read_locations sample_region = Inr sample_locs"
proof -
  have "map (\<lambda>i. (from_bytes_big (take 3 (drop (i * 4) sample_region)),
                   unat (sample_region ! (i * 4 + 3)))) [0..<1024] = sample_locs"
    by (rule nth_equalityI) (simp_all add: sample_locs_def [THEN arg_cong, of length] sample_locs_nth)
  then show ?thesis
    using read_locations_long [of sample_region] by (simp add: length_sample_region)
qed

text \<open>Extracting and processing the three present chunks of the sample region.\<close>

lemma get_chunk_blob_sample_0: "get_chunk_blob sample_region 2 1 = Some [0, 0, 0, 2, 3, 1]"
  by (simp add: get_chunk_blob_unfold SECTOR_BYTES_def sample_region_def slice_def from_bytes_4)

lemma get_chunk_blob_sample_1: "get_chunk_blob sample_region 9 1 = None"
  by (simp add: get_chunk_blob_unfold SECTOR_BYTES_def length_sample_region)

lemma get_chunk_blob_sample_2: "get_chunk_blob sample_region 3 1 = Some [0, 0, 0, 2, 3, 9]"
  by (simp add: get_chunk_blob_unfold SECTOR_BYTES_def sample_region_def slice_def from_bytes_4)

lemma sample_timestamp_2: "read_timestamps sample_region ! 2 = 9"
  by (simp add: read_timestamps_def SECTOR_BYTES_def sample_region_def slice_def from_bytes_4)

lemma be_digits_3: "be_digits 3 n = [word_of_nat (n div 256 div 256), word_of_nat (n div 256), word_of_nat n]"
proof -
  have "be_digits (Suc (Suc (Suc 0))) n
          = [word_of_nat (n div 256 div 256), word_of_nat (n div 256), word_of_nat n]" by simp
  then show ?thesis by (simp only: numeral_3_eq_3)
qed

lemma be_digits_4:
  "be_digits 4 n = [word_of_nat (n div 256 div 256 div 256), word_of_nat (n div 256 div 256),
                    word_of_nat (n div 256), word_of_nat n]"
proof -
  have "be_digits (Suc (Suc (Suc (Suc 0)))) n
          = [word_of_nat (n div 256 div 256 div 256), word_of_nat (n div 256 div 256),
             word_of_nat (n div 256), word_of_nat n]" by simp
  moreover have "(4 :: nat) = Suc (Suc (Suc (Suc 0)))" by simp
  ultimately show ?thesis by (simp only:)
qed

lemma remap_sample_root:
  "remap_chunk_biome_palettes sample_ext (sample_root ''terralith:yellowstone'')
     sample_mapping None None None = Inr (sample_root ''minecraft:badlands'', True, 1)"
  by (simp add: remap_chunk_biome_palettes_def sample_root_def get_sections_def
        remap_section_def remap_section_palettes_def y_filtered_out_def section_y_def iter_biome_palette_lists_def
        iter_biomes_def iter_Biomes_def put_palette_def put_sections_def
        remap_entry_def sample_ext_def sample_mapping_def normalize_biome_name_def
        startswith_def after_first_colon_def str_truthy_def)

lemma sample_ext_fields:
  "nbt_parse sample_ext [1] = Some (sample_root ''terralith:yellowstone'')"
  "nbt_parse sample_ext [9] = None"
  "nbt_write sample_ext (sample_root ''minecraft:badlands'') = Some [2]"
  by (simp_all add: sample_ext_def sample_root_def)

lemma try_chunk_sample_0:
  "try_chunk sample_ext sample_mapping None None None [0, 0, 0, 2, 3, 1]
     (chunk_blob_compression_type [0, 0, 0, 2, 3, 1]) = Inr (Some ([0, 0, 0, 2, 3, 2], 1))"
  by (simp add: try_chunk_def chunk_blob_compression_type_def decompress_chunk_nbt_def
      from_bytes_4 sample_ext_fields remap_sample_root compress_chunk_nbt_def to_bytes_big_def
      be_digits_4)

lemma try_chunk_sample_2:
  "try_chunk sample_ext sample_mapping None None None [0, 0, 0, 2, 3, 9]
     (chunk_blob_compression_type [0, 0, 0, 2, 3, 9]) = Inl NbtParseFailed"
  by (simp add: try_chunk_def chunk_blob_compression_type_def decompress_chunk_nbt_def
      from_bytes_4 sample_ext_fields)

text \<open>The present slots of the sample region and the pass of the worker over them.\<close>

lemma filter_upt_eq:
  assumes "sorted xs" and "distinct xs" and "set xs = {i. i < n \<and> P i}"
  shows "filter P [0..<n] = xs"
proof (rule sorted_distinct_set_unique)
  show "sorted (filter P [0..<n])" by (rule sorted_wrt_filter) simp
  show "distinct (filter P [0..<n])" by simp
  show "set (filter P [0..<n]) = set xs" using assms(3) by auto
qed (rule assms)+

lemma length_sample_locs: "length sample_locs = 1024"
  by (simp add: sample_locs_def)

lemma sample_locs_values:
  "sample_locs ! 0 = (2, 1)" "sample_locs ! 1 = (9, 1)" "sample_locs ! 2 = (3, 1)"
  by (simp_all add: sample_locs_def)

lemma sample_locs_absent: "3 \<le> i \<Longrightarrow> i < 1024 \<Longrightarrow> sample_locs ! i = (0, 0)"
  by (simp add: sample_locs_def nth_append)

lemma sample_present: "filter (\<lambda>i. slot_present (sample_locs ! i)) [0..<1024] = [0, 1, 2]"
proof (rule filter_upt_eq)
  show "set [0, 1, 2] = {i. i < 1024 \<and> slot_present (sample_locs ! i)}"
  proof (rule set_eqI)
    fix i :: nat
    consider "i = 0" | "i = 1" | "i = 2" | "3 \<le> i" "i < 1024" | "1024 \<le> i" by linarith
    then show "i \<in> set [0, 1, 2] \<longleftrightarrow> i \<in> {i. i < 1024 \<and> slot_present (sample_locs ! i)}"
      by cases (simp_all add: sample_locs_values sample_locs_absent slot_present_def
          del: One_nat_def)
  qed
qed simp_all

lemma present_ptrs_sample:
  "present_ptrs sample_locs =
     [\<lparr>idx = 0, off_sectors = 2, sector_count = 1\<rparr>,
      \<lparr>idx = 1, off_sectors = 9, sector_count = 1\<rparr>,
      \<lparr>idx = 2, off_sectors = 3, sector_count = 1\<rparr>]"
  by (simp add: present_ptrs_def length_sample_locs sample_present sample_locs_values
      del: One_nat_def)

lemma process_chunks_sample:
  "process_chunks sample_ext sample_mapping None None None sample_region (present_ptrs sample_locs)
     = (\<lparr>processed = 2, changed = 1, entries_changed = 1, parse_errors = 1\<rparr>, sample_updated)"
  by (simp add: present_ptrs_sample process_chunks_def process_chunk_cases
      get_chunk_blob_sample_0 get_chunk_blob_sample_1 get_chunk_blob_sample_2
      try_chunk_sample_0 try_chunk_sample_2 sample_updated_def del: One_nat_def)

text \<open>The rebuild of the sample region, from the closed form of the rebuilt bytes.\<close>

lemma sample_pick_values:
  "sample_pick 0 = Some ([0, 0, 0, 2, 3, 2], 100)"
  "sample_pick 1 = None"
  "sample_pick 2 = Some ([0, 0, 0, 2, 3, 9], 9)"
  by (simp_all add: pick_blob_def sample_locs_values sample_updated_def
      get_chunk_blob_sample_1 get_chunk_blob_sample_2 sample_timestamp_2 del: One_nat_def)

lemma sample_pick_absent: "3 \<le> i \<Longrightarrow> i < 1024 \<Longrightarrow> sample_pick i = None"
  by (simp add: pick_blob_def sample_locs_absent)

lemma sectors_needed_small [simp]: "length blob \<le> 4096 \<Longrightarrow> sectors_needed blob = 1"
proof -
  assume "length blob \<le> 4096"
  then have "(length blob + 4095) div 4096 \<le> 1" by arith
  then show ?thesis by (simp add: sectors_needed_def SECTOR_BYTES_def max_def)
qed

lemma replicate_4: "replicate 4 z = [z, z, z, z]"
  by (simp add: numeral_eq_Suc)

lemma sample_slot_sectors:
  "slot_sectors sample_pick 0 = 1" "slot_sectors sample_pick 1 = 0"
  "slot_sectors sample_pick 2 = 1"
  by (simp_all add: slot_sectors_def sample_pick_values del: One_nat_def)

lemma sample_slot_offsets: "slot_offset sample_pick 0 = 2" "slot_offset sample_pick 2 = 3"
proof -
  show "slot_offset sample_pick 0 = 2" by (simp add: slot_offset_def)
  have "slot_offset sample_pick (Suc (Suc 0)) = 3"
    unfolding slot_offset_Suc using sample_slot_sectors
    by (simp add: slot_offset_def)
  then show "slot_offset sample_pick 2 = 3" by (simp only: numeral_2_eq_2)
qed

lemma concat_map_const:
  "(\<And>i. m \<le> i \<Longrightarrow> i < n \<Longrightarrow> g i = replicate k z) \<Longrightarrow>
   concat (map g [m..<n]) = replicate (k * (n - m)) z"
proof (induction n)
  case 0
  then show ?case by simp
next
  case (Suc n)
  show ?case
  proof (cases "m \<le> n")
    case True
    then have "concat (map g [m..<Suc n]) = concat (map g [m..<n]) @ g n" by simp
    also have "\<dots> = replicate (k * (n - m)) z @ replicate k z"
      using Suc True by simp
    also have "\<dots> = replicate (k * (Suc n - m)) z"
      using True by (simp add: replicate_add [symmetric] Suc_diff_le)
    finally show ?thesis .
  next
    case False
    then show ?thesis by simp
  qed
qed

lemma concat_map_first3:
  assumes "\<And>i. 3 \<le> i \<Longrightarrow> i < n \<Longrightarrow> g i = replicate k z" and "3 \<le> n"
  shows "concat (map g [0..<n]) = g 0 @ g 1 @ g 2 @ replicate (k * (n - 3)) z"
proof -
  have "[0..<n] = [0..<3] @ [3..<n]"
    using assms(2) upt_add_eq_append [of 0 3 "n - 3"] by simp
  moreover have "[0..<3] = [0, 1, 2]" by (simp add: upt_rec)
  ultimately have "concat (map g [0..<n]) = g 0 @ g 1 @ g 2 @ concat (map g [3..<n])"
    by simp
  with concat_map_const [of 3 n g k z] assms(1) show ?thesis by simp
qed

lemma rebuilt_bytes_sample: "rebuilt_bytes sample_pick = sample_rebuilt"
proof -
  have l: "concat (map (\<lambda>i. enc_loc (loc_entry sample_pick i)) [0..<1024])
             = [0, 0, 2, 1, 0, 0, 0, 0, 0, 0, 3, 1] @ replicate 4084 0"
    by (subst concat_map_first3 [where k = 4 and z = 0])
       (simp_all add: loc_entry_def sample_pick_values sample_pick_absent sample_slot_offsets
          enc_loc_def be_digits_3 replicate_4 del: One_nat_def)
  have t: "concat (map (\<lambda>i. enc_ts (ts_entry sample_pick i)) [0..<1024])
             = [0, 0, 0, 100, 0, 0, 0, 0, 0, 0, 0, 9] @ replicate 4084 0"
    by (subst concat_map_first3 [where k = 4 and z = 0])
       (simp_all add: ts_entry_def sample_pick_values sample_pick_absent
          enc_ts_def be_digits_4 replicate_4 del: One_nat_def)
  have p: "concat (map (slot_bytes sample_pick) [0..<1024])
             = [0, 0, 0, 2, 3, 2] @ replicate 4090 0 @ [0, 0, 0, 2, 3, 9] @ replicate 4090 0"
    by (subst concat_map_first3 [where k = 0 and z = 0])
       (simp_all add: slot_bytes_def sample_pick_values sample_pick_absent SECTOR_BYTES_def
          del: One_nat_def)
  show ?thesis
    unfolding rebuilt_bytes_def map_map o_def l t p sample_rebuilt_def by simp
qed

lemma sample_small: "i < 1024 \<Longrightarrow> slot_sectors sample_pick i \<le> 255"
proof -
  assume "i < 1024"
  then consider "i = 0" | "i = 1" | "i = 2" | "3 \<le> i" "i < 1024" by linarith
  then show ?thesis
  proof cases
    case 1
    then show ?thesis by (simp add: sample_slot_sectors del: One_nat_def)
  next
    case 2
    then show ?thesis by (simp add: sample_slot_sectors del: One_nat_def)
  next
    case 3
    then show ?thesis by (simp add: sample_slot_sectors del: One_nat_def)
  next
    case 4
    then show ?thesis by (simp add: slot_sectors_def sample_pick_absent)
  qed
qed

lemma sample_ts_ok: "i < 1024 \<Longrightarrow> ts_entry sample_pick i < 256 ^ 4"
proof -
  assume "i < 1024"
  then consider "i = 0" | "i = 1" | "i = 2" | "3 \<le> i" "i < 1024" by linarith
  then show ?thesis
    by cases (simp_all add: ts_entry_def sample_pick_values sample_pick_absent
        del: One_nat_def)
qed

lemma rebuild_region_sample: "rebuild_region sample_region sample_updated 100 = Inr sample_rebuilt"
  using rebuild_region_ok [OF read_locations_sample refl sample_small sample_ts_ok]
  by (simp add: rebuilt_bytes_sample)

lemma process_region_file_sample:
  "process_region_file sample_ext sample_mapping None None None False True False 100 sample_region
     = Inr \<lparr>counters_of = \<lparr>processed = 2, changed = 1, entries_changed = 1, parse_errors = 1\<rparr>,
            new_region = Some sample_rebuilt, new_backup = Some sample_region\<rparr>"
  by (simp add: process_region_file_def iter_present_chunks_ptrs [OF read_locations_sample]
      process_chunks_sample rebuild_region_sample)

text \<open>Reading the rebuilt sample region back, and the theorems above at this run.\<close>

lemma length_sample_rebuilt: "length sample_rebuilt = 16384"
  by (simp add: sample_rebuilt_def)

lemma sample_rebuilt_locs_values:
  "sample_rebuilt_locs ! 0 = (2, 1)" "sample_rebuilt_locs ! 1 = (0, 0)"
  "sample_rebuilt_locs ! 2 = (3, 1)"
  by (simp_all add: sample_rebuilt_locs_def)

lemma sample_loc_entries:
  "loc_entry sample_pick 0 = (2, 1)" "loc_entry sample_pick 1 = (0, 0)"
  "loc_entry sample_pick 2 = (3, 1)"
  by (simp_all add: loc_entry_def sample_pick_values sample_slot_offsets del: One_nat_def)

lemma read_locations_sample_rebuilt: "read_locations sample_rebuilt = Inr sample_rebuilt_locs"
proof -
  have "map (loc_entry sample_pick) [0..<1024] = sample_rebuilt_locs"
  proof (rule nth_equalityI)
    show "length (map (loc_entry sample_pick) [0..<1024]) = length sample_rebuilt_locs"
      by (simp add: sample_rebuilt_locs_def)
  next
    fix i assume "i < length (map (loc_entry sample_pick) [0..<1024])"
    then have i: "i < 1024" by simp
    then consider "i = 0" | "i = 1" | "i = 2" | "3 \<le> i" "i < 1024" by linarith
    then have "loc_entry sample_pick i = sample_rebuilt_locs ! i"
    proof cases
      case 4
      then show ?thesis
        by (simp add: loc_entry_def sample_pick_absent sample_rebuilt_locs_def nth_append)
    qed (simp_all add: sample_loc_entries sample_rebuilt_locs_values del: One_nat_def)
    with i show "map (loc_entry sample_pick) [0..<1024] ! i = sample_rebuilt_locs ! i" by simp
  qed
  with read_locations_rebuilt [of sample_pick, OF sample_small] show ?thesis
    by (simp add: rebuilt_bytes_sample)
qed

lemma get_chunk_blob_rebuilt_0: "get_chunk_blob sample_rebuilt 2 1 = Some [0, 0, 0, 2, 3, 2]"
  by (simp add: get_chunk_blob_unfold SECTOR_BYTES_def sample_rebuilt_def slice_def from_bytes_4)

lemma get_chunk_blob_rebuilt_2: "get_chunk_blob sample_rebuilt 3 1 = Some [0, 0, 0, 2, 3, 9]"
  by (simp add: get_chunk_blob_unfold SECTOR_BYTES_def sample_rebuilt_def slice_def from_bytes_4)

lemma sample_rebuilt_timestamps:
  "read_timestamps sample_rebuilt ! 0 = 100" "read_timestamps sample_rebuilt ! 1 = 0"
  "read_timestamps sample_rebuilt ! 2 = 9"
  by (simp_all add: read_timestamps_def SECTOR_BYTES_def sample_rebuilt_def slice_def from_bytes_4)

lemma sample_rebuilt_slices:
  "slice sample_rebuilt 8192 8198 = [0, 0, 0, 2, 3, 2]"
  "slice sample_rebuilt 12288 12294 = [0, 0, 0, 2, 3, 9]"
  "slice sample_rebuilt 4 8 = [0, 0, 0, 0]"
  "slice sample_rebuilt 4100 4104 = [0, 0, 0, 0]"
  by (simp_all add: sample_rebuilt_def slice_def)

lemma sample_sum_sectors: "sum_list (map snd sample_rebuilt_locs) = 2"
  by (simp add: sample_rebuilt_locs_def sum_list_replicate)

lemma process_region_file_outcome:
  "process_region_file sample_ext sample_mapping None None None False True False 100 sample_region
     = Inr sample_outcome"
  by (simp add: process_region_file_sample sample_outcome_def)

lemma new_region_sample_outcome: "new_region sample_outcome = Some sample_rebuilt"
  by (simp add: sample_outcome_def)

theorem rebuild_region_layout_witness:
  "read_locations sample_region = Inr sample_locs
   \<and> rebuild_region sample_region sample_updated 100 = Inr sample_rebuilt
   \<and> (\<exists>locs'. read_locations sample_rebuilt = Inr locs' \<and> length locs' = 1024
         \<and> locs' ! 0 = (2, 1) \<and> slice sample_rebuilt 8192 8198 = [0, 0, 0, 2, 3, 2]
         \<and> locs' ! 1 = (0, 0) \<and> slice sample_rebuilt 4 8 = [0, 0, 0, 0]
         \<and> slice sample_rebuilt 4100 4104 = [0, 0, 0, 0]
         \<and> locs' ! 2 = (3, 1) \<and> slice sample_rebuilt 12288 12294 = [0, 0, 0, 2, 3, 9]
         \<and> (3 + 1) * 4096 \<le> length sample_rebuilt)"
proof -
  note l = rebuild_region_layout [where original = sample_region and locs = sample_locs
      and updated = sample_updated and now_ts = 100 and outb = sample_rebuilt,
      OF read_locations_sample refl]
  from l rebuild_region_sample obtain locs' where
    r: "read_locations sample_rebuilt = Inr locs'" and len: "length locs' = 1024"
    and em: "\<forall>i<1024. \<forall>blob t. sample_pick i = Some (blob, t) \<longrightarrow>
               locs' ! i = (slot_offset sample_pick i, sectors_needed blob)
               \<and> slice sample_rebuilt (slot_offset sample_pick i * 4096)
                    (slot_offset sample_pick i * 4096 + length blob) = blob"
    and ab: "\<forall>i<1024. sample_pick i = None \<longrightarrow>
               locs' ! i = (0, 0)
               \<and> slice sample_rebuilt (i * 4) (i * 4 + 4) = [0, 0, 0, 0]
               \<and> slice sample_rebuilt (4096 + i * 4) (4096 + i * 4 + 4) = [0, 0, 0, 0]"
    and bd: "\<forall>i<1024. fst (locs' ! i) \<noteq> 0 \<and> snd (locs' ! i) \<noteq> 0 \<longrightarrow>
               2 \<le> fst (locs' ! i)
               \<and> (fst (locs' ! i) + snd (locs' ! i)) * 4096 \<le> length sample_rebuilt"
    by blast
  from em [rule_format, of 0, OF _ sample_pick_values(1)] have e0:
    "locs' ! 0 = (2, 1)" "slice sample_rebuilt 8192 8198 = [0, 0, 0, 2, 3, 2]"
    by (simp_all add: sample_slot_offsets)
  from em [rule_format, of 2, OF _ sample_pick_values(3)] have e2:
    "locs' ! 2 = (3, 1)" "slice sample_rebuilt 12288 12294 = [0, 0, 0, 2, 3, 9]"
    by (simp_all add: sample_slot_offsets)
  from ab [rule_format, of 1, OF _ sample_pick_values(2)] have e1:
    "locs' ! 1 = (0, 0)" "slice sample_rebuilt 4 8 = [0, 0, 0, 0]"
    "slice sample_rebuilt 4100 4104 = [0, 0, 0, 0]"
    by simp_all
  from bd [rule_format, of 2] e2 have b2: "(3 + 1) * 4096 \<le> length sample_rebuilt"
    by simp
  from r len e0 e1 e2 b2 read_locations_sample rebuild_region_sample show ?thesis
    by blast
qed

theorem rebuild_region_length_witness:
  "rebuild_region sample_region sample_updated 100 = Inr sample_rebuilt
   \<and> read_locations sample_rebuilt = Inr sample_rebuilt_locs
   \<and> sum_list (map snd sample_rebuilt_locs) = 2
   \<and> length sample_rebuilt = 8192 + 4096 * 2
   \<and> 4096 dvd length sample_rebuilt"
  using rebuild_region_length [OF rebuild_region_sample read_locations_sample_rebuilt]
    rebuild_region_sample read_locations_sample_rebuilt sample_sum_sectors
  by simp


theorem failed_chunks_carried_witness:
  "process_region_file sample_ext sample_mapping None None None False True False 100 sample_region
     = Inr sample_outcome
   \<and> new_region sample_outcome = Some sample_rebuilt
   \<and> read_locations sample_region = Inr sample_locs
   \<and> sample_locs ! 2 = (3, 1)
   \<and> get_chunk_blob sample_region 3 1 = Some [0, 0, 0, 2, 3, 9]
   \<and> try_chunk sample_ext sample_mapping None None None [0, 0, 0, 2, 3, 9]
        (chunk_blob_compression_type [0, 0, 0, 2, 3, 9]) = Inl NbtParseFailed
   \<and> (\<exists>locs'. read_locations sample_rebuilt = Inr locs'
         \<and> fst (locs' ! 2) \<noteq> 0 \<and> snd (locs' ! 2) \<noteq> 0
         \<and> get_chunk_blob sample_rebuilt (fst (locs' ! 2)) (snd (locs' ! 2))
             = Some [0, 0, 0, 2, 3, 9])
   \<and> sample_locs ! 1 = (9, 1)
   \<and> get_chunk_blob sample_region 9 1 = None
   \<and> (\<exists>locs'. read_locations sample_rebuilt = Inr locs' \<and> locs' ! 1 = (0, 0))
   \<and> read_timestamps sample_rebuilt ! 1 = 0
   \<and> parse_errors (counters_of sample_outcome) = 1
   \<and> length (filter (\<lambda>j. slot_present (sample_locs ! j)
                          \<and> parse_failed sample_ext sample_mapping None None None sample_region
                               (sample_locs ! j)) [0..<1024]) = 1"
proof -
  note f = failed_chunks_carried [OF process_region_file_outcome new_region_sample_outcome
      read_locations_sample]
  have c: "\<exists>locs'. read_locations sample_rebuilt = Inr locs'
         \<and> fst (locs' ! 2) \<noteq> 0 \<and> snd (locs' ! 2) \<noteq> 0
         \<and> get_chunk_blob sample_rebuilt (fst (locs' ! 2)) (snd (locs' ! 2))
             = Some [0, 0, 0, 2, 3, 9]"
    using f [of 2 3 1] get_chunk_blob_sample_2 try_chunk_sample_2
    by (simp add: sample_locs_values)
  have a: "(\<exists>locs'. read_locations sample_rebuilt = Inr locs' \<and> locs' ! 1 = (0, 0))
         \<and> read_timestamps sample_rebuilt ! 1 = 0"
    using f [of 1 9 1] get_chunk_blob_sample_1
    by (simp add: sample_locs_values del: One_nat_def)
  have n: "parse_errors (counters_of sample_outcome)
         = length (filter (\<lambda>j. slot_present (sample_locs ! j)
                          \<and> parse_failed sample_ext sample_mapping None None None sample_region
                               (sample_locs ! j)) [0..<1024])"
    using f [of 2 3 1] by (simp add: sample_locs_values)
  have p: "parse_errors (counters_of sample_outcome) = 1"
    by (simp add: sample_outcome_def)
  from c a n p process_region_file_outcome new_region_sample_outcome read_locations_sample
    get_chunk_blob_sample_1 get_chunk_blob_sample_2 try_chunk_sample_2 sample_locs_values
  show ?thesis by (simp del: One_nat_def)
qed

theorem extraction_failure_counterexample:
  "read_locations sample_region = Inr sample_locs
   \<and> sample_locs ! 1 = (9, 1)
   \<and> get_chunk_blob sample_region 9 1 = None
   \<and> sample_locs ! 2 = (3, 1)
   \<and> get_chunk_blob sample_region 3 1 = Some [0, 0, 0, 2, 3, 9]
   \<and> try_chunk sample_ext sample_mapping None None None [0, 0, 0, 2, 3, 9]
        (chunk_blob_compression_type [0, 0, 0, 2, 3, 9]) = Inl NbtParseFailed
   \<and> process_region_file sample_ext sample_mapping None None None False True False 100
        sample_region = Inr sample_outcome
   \<and> parse_errors (counters_of sample_outcome) = 1
   \<and> new_region sample_outcome = Some sample_rebuilt
   \<and> read_locations sample_rebuilt = Inr sample_rebuilt_locs
   \<and> sample_rebuilt_locs ! 1 = (0, 0)
   \<and> read_timestamps sample_rebuilt ! 1 = 0"
  using read_locations_sample sample_locs_values get_chunk_blob_sample_1 get_chunk_blob_sample_2
    try_chunk_sample_2 process_region_file_outcome new_region_sample_outcome
    read_locations_sample_rebuilt sample_rebuilt_locs_values sample_rebuilt_timestamps
  by (simp add: sample_outcome_def del: One_nat_def)

theorem compression_tag_preserved_witness:
  "process_region_file sample_ext sample_mapping None None None False True False 100 sample_region
     = Inr sample_outcome
   \<and> new_region sample_outcome = Some sample_rebuilt
   \<and> read_locations sample_region = Inr sample_locs
   \<and> sample_locs ! 0 = (2, 1)
   \<and> get_chunk_blob sample_region 2 1 = Some [0, 0, 0, 2, 3, 1]
   \<and> try_chunk sample_ext sample_mapping None None None [0, 0, 0, 2, 3, 1]
        (chunk_blob_compression_type [0, 0, 0, 2, 3, 1]) = Inr (Some ([0, 0, 0, 2, 3, 2], 1))
   \<and> unat ([0, 0, 0, 2, 3, 1 :: byte] ! 4) = 3
   \<and> (\<exists>locs'. read_locations sample_rebuilt = Inr locs'
         \<and> fst (locs' ! 0) \<noteq> 0 \<and> snd (locs' ! 0) \<noteq> 0
         \<and> get_chunk_blob sample_rebuilt (fst (locs' ! 0)) (snd (locs' ! 0))
             = Some [0, 0, 0, 2, 3, 2]
         \<and> sample_rebuilt ! (fst (locs' ! 0) * 4096 + 4) = 3)"
proof -
  have "\<exists>locs'. read_locations sample_rebuilt = Inr locs'
         \<and> fst (locs' ! 0) \<noteq> 0 \<and> snd (locs' ! 0) \<noteq> 0
         \<and> get_chunk_blob sample_rebuilt (fst (locs' ! 0)) (snd (locs' ! 0))
             = Some [0, 0, 0, 2, 3, 2]
         \<and> sample_rebuilt ! (fst (locs' ! 0) * 4096 + 4) = 3"
    using compression_tag_preserved [OF process_region_file_outcome new_region_sample_outcome
        read_locations_sample _ sample_locs_values(1) _ _ get_chunk_blob_sample_0
        try_chunk_sample_0]
    by simp
  with process_region_file_outcome new_region_sample_outcome read_locations_sample
    get_chunk_blob_sample_0 try_chunk_sample_0 sample_locs_values
  show ?thesis by simp
qed

end
